theory Spec2Isabelle
  imports Complex_Main "HOL-Library.Sublist"
begin

section \<open>Python string operations used by the pipeline scripts\<close>

text \<open>
  The Kaggle CSV is read with \<open>encoding='latin-1'\<close>, so every character of a cell is one
  code point below 256: a Python \<open>str\<close> is modelled as a \<open>string\<close>, one \<open>char\<close> per
  code point.
\<close>

text \<open>\<open>str.lower()\<close> on a Latin-1 code point: A-Z and the accented capitals
  U+00C0..U+00DE (without the multiplication sign U+00D7) map to the code point 32
  above; every other code point below 256 stays.\<close>

definition upper_chars :: "char list" where
  "upper_chars = ''ABCDEFGHIJKLMNOPQRSTUVWXYZ'' @
     [CHR 0xC0, CHR 0xC1, CHR 0xC2, CHR 0xC3, CHR 0xC4, CHR 0xC5, CHR 0xC6, CHR 0xC7,
     CHR 0xC8, CHR 0xC9, CHR 0xCA, CHR 0xCB, CHR 0xCC, CHR 0xCD, CHR 0xCE, CHR 0xCF, CHR
     0xD0, CHR 0xD1, CHR 0xD2, CHR 0xD3, CHR 0xD4, CHR 0xD5, CHR 0xD6, CHR 0xD8, CHR
     0xD9, CHR 0xDA, CHR 0xDB, CHR 0xDC, CHR 0xDD, CHR 0xDE]"

definition lower_chars :: "char list" where
  "lower_chars = ''abcdefghijklmnopqrstuvwxyz'' @
     [CHR 0xE0, CHR 0xE1, CHR 0xE2, CHR 0xE3, CHR 0xE4, CHR 0xE5, CHR 0xE6, CHR 0xE7,
     CHR 0xE8, CHR 0xE9, CHR 0xEA, CHR 0xEB, CHR 0xEC, CHR 0xED, CHR 0xEE, CHR 0xEF, CHR
     0xF0, CHR 0xF1, CHR 0xF2, CHR 0xF3, CHR 0xF4, CHR 0xF5, CHR 0xF6, CHR 0xF8, CHR
     0xF9, CHR 0xFA, CHR 0xFB, CHR 0xFC, CHR 0xFD, CHR 0xFE]"

definition py_lower_char :: "char \<Rightarrow> char" where
  "py_lower_char c = (case map_of (zip upper_chars lower_chars) c of Some d \<Rightarrow> d | None \<Rightarrow> c)"

definition py_lower :: "string \<Rightarrow> string" where
  "py_lower s = map py_lower_char s"

text \<open>The characters \<open>str.strip()\<close> removes (Python's \<open>str.isspace\<close> below 256).\<close>

definition py_isspace :: "char \<Rightarrow> bool" where
  "py_isspace c =
     (let n = (of_char c :: nat)
      in (9 \<le> n \<and> n \<le> 13) \<or> (28 \<le> n \<and> n \<le> 32) \<or> n = 133 \<or> n = 160)"

text \<open>\<open>s.strip(chars)\<close>, with the set of characters given as a predicate.\<close>

definition strip_chars :: "(char \<Rightarrow> bool) \<Rightarrow> string \<Rightarrow> string" where
  "strip_chars p s = rev (dropWhile p (rev (dropWhile p s)))"

definition py_strip :: "string \<Rightarrow> string" where
  "py_strip s = strip_chars py_isspace s"

text \<open>\<open>sub in s\<close> on strings: \<open>sub\<close> occurs as a contiguous block of \<open>s\<close>.\<close>

fun str_in :: "string \<Rightarrow> string \<Rightarrow> bool" where
  "str_in sub [] = (sub = [])"
| "str_in sub (c # cs) = (prefix sub (c # cs) \<or> str_in sub cs)"

section \<open>kaggle\_processor.py: gender normalisation in \<open>clean_fragrance_data\<close>\<close>

text \<open>
  \<^verbatim>\<open>
  gender = str(row['Gender']).lower().strip()
  if 'women' in gender and 'men' not in gender:
      gender_normalized = 'women'
  elif 'men' in gender and 'women' not in gender:
      gender_normalized = 'men'
  else:
      gender_normalized = 'unisex'
  \<close>
  The argument is \<open>str(row['Gender'])\<close>.
\<close>

definition gender_normalized :: "string \<Rightarrow> string" where
  "gender_normalized g =
     (let gender = py_strip (py_lower g)
      in if str_in ''women'' gender \<and> \<not> str_in ''men'' gender then ''women''
         else if str_in ''men'' gender \<and> \<not> str_in ''women'' gender then ''men''
         else ''unisex'')"

section \<open>kaggle\_processor.py: identifier generation in \<open>clean_fragrance_data\<close>\<close>

text \<open>
  \<^verbatim>\<open>
  brand_id = re.sub(r'[^a-z0-9]+', '-', brand.lower()).strip('-')
  fragrance_slug = re.sub(r'[^a-z0-9]+', '-', name_cleaned.lower()).strip('-')
  fragrance_id = f"{brand_id}__{fragrance_slug}"
  \<close>
  \<open>re_sub_non_alnum\<close> is \<open>re.sub(r'[^a-z0-9]+', '-', _)\<close>: each maximal run of characters
  outside \<open>[a-z0-9]\<close> becomes one hyphen. \<open>slug_block\<close> runs the regular expression
  \<open>^[a-z0-9]+(-[a-z0-9]+)*$\<close> as an automaton whose flag says whether a block
  \<open>[a-z0-9]+\<close> has been entered.
\<close>

definition is_slug_char :: "char \<Rightarrow> bool" where
  "is_slug_char c =
     (let n = (of_char c :: nat)
      in (97 \<le> n \<and> n \<le> 122) \<or> (48 \<le> n \<and> n \<le> 57))"

function re_sub_non_alnum :: "string \<Rightarrow> string" where
  "re_sub_non_alnum [] = []"
| "re_sub_non_alnum (c # cs) =
     (if is_slug_char c then c # re_sub_non_alnum cs
      else CHR ''-'' # re_sub_non_alnum (dropWhile (\<lambda>d. \<not> is_slug_char d) cs))"
  by pat_completeness auto
termination
  by (relation "measure length") (auto simp: length_dropWhile_le less_Suc_eq_le)

definition is_hyphen :: "char \<Rightarrow> bool" where
  "is_hyphen c = (c = CHR ''-'')"

definition slugify :: "string \<Rightarrow> string" where
  "slugify s = strip_chars is_hyphen (re_sub_non_alnum (py_lower s))"

definition make_ids :: "string \<Rightarrow> string \<Rightarrow> string \<times> string \<times> string" where
  "make_ids brand name_cleaned =
     (let brand_id = slugify brand;
          fragrance_slug = slugify name_cleaned;
          fragrance_id = brand_id @ ''__'' @ fragrance_slug
      in (fragrance_id, brand_id, fragrance_slug))"

fun slug_block :: "bool \<Rightarrow> string \<Rightarrow> bool" where
  "slug_block inside [] = inside"
| "slug_block inside (c # cs) =
     (if is_slug_char c then slug_block True cs
      else inside \<and> c = CHR ''-'' \<and> slug_block False cs)"

definition matches_slug_regex :: "string \<Rightarrow> bool" where
  "matches_slug_regex s = slug_block False s"


definition slug_alphabet :: "char \<Rightarrow> bool" where
  "slug_alphabet c = (is_slug_char c \<or> c = CHR ''-'')"

definition well_formed_slug :: "string \<Rightarrow> bool" where
  "well_formed_slug s =
     (s \<noteq> [] \<and> list_all slug_alphabet s \<and> hd s \<noteq> CHR ''-'' \<and> last s \<noteq> CHR ''-''
      \<and> \<not> str_in ''--'' s)"

section \<open>kaggle\_processor.py: name cleaning in \<open>clean_fragrance_data\<close>\<close>

text \<open>
  \<^verbatim>\<open>
  name = str(row['Perfume']).strip()
  brand = str(row['Brand']).strip()
  name_cleaned = re.sub(rf'^{re.escape(brand)}\s*[-:]?\s*', '', name, flags=re.IGNORECASE)
  name_cleaned = re.sub(r'\s+', ' ', name_cleaned).strip()
  \<close>
  The pattern is anchored at the start of the name: when the name begins with the brand
  (compared case-insensitively, i.e. after lower-casing each code point below 256), the
  brand, the white space after it, one optional \<open>-\<close> or \<open>:\<close> and the white space after
  that are removed (every part of \<open>\s*[-:]?\s*\<close> is greedy and may be empty); otherwise
  the name is unchanged. \<open>after_brand\<close> is what \<open>\s*[-:]?\s*\<close> leaves of the rest, and
  \<open>collapse_whitespace\<close> is \<open>re.sub(r'\s+', ' ', _)\<close>. \<open>clean_fragrance_ids\<close> takes the
  two cells \<open>str(row['Perfume'])\<close> and \<open>str(row['Brand'])\<close> and returns \<open>id\<close>,
  \<open>brand_id\<close> and \<open>slug\<close> as \<open>clean_fragrance_data\<close> computes them.
\<close>

definition after_brand :: "string \<Rightarrow> string" where
  "after_brand s =
     (let s1 = dropWhile py_isspace s;
          s2 = (case s1 of
                  [] \<Rightarrow> []
                | c # cs \<Rightarrow> if c = CHR ''-'' \<or> c = CHR '':'' then cs else s1)
      in dropWhile py_isspace s2)"

definition remove_brand_prefix :: "string \<Rightarrow> string \<Rightarrow> string" where
  "remove_brand_prefix brand name =
     (if py_lower (take (length brand) name) = py_lower brand
      then after_brand (drop (length brand) name)
      else name)"

function collapse_whitespace :: "string \<Rightarrow> string" where
  "collapse_whitespace [] = []"
| "collapse_whitespace (c # cs) =
     (if py_isspace c then CHR '' '' # collapse_whitespace (dropWhile py_isspace cs)
      else c # collapse_whitespace cs)"
  by pat_completeness auto
termination
  by (relation "measure length") (auto simp: length_dropWhile_le less_Suc_eq_le)

definition clean_name :: "string \<Rightarrow> string \<Rightarrow> string" where
  "clean_name brand name =
     (let name_cleaned = remove_brand_prefix brand name;
          name_cleaned = py_strip (collapse_whitespace name_cleaned)
      in name_cleaned)"

definition clean_fragrance_ids :: "string \<Rightarrow> string \<Rightarrow> string \<times> string \<times> string" where
  "clean_fragrance_ids perfume_cell brand_cell =
     (let name = py_strip perfume_cell;
          brand = py_strip brand_cell;
          name_cleaned = clean_name brand name
      in make_ids brand name_cleaned)"

section \<open>Records loaded from JSON\<close>

text \<open>
  The repair scripts and the importer work on \<open>Dict[str, Any]\<close> values read by
  \<open>json.load\<close>. A JSON value is \<open>null\<close>, a boolean, a number, a string or a list;
  numbers are modelled as reals (Python compares \<open>int\<close> and \<open>float\<close> by value; NaN is
  not modelled). A record is a finite map from keys to values; an absent key is \<open>None\<close>.
\<close>

datatype pyval = VNone | VBool bool | VNum real | VStr string | VList "pyval list"

text \<open>The exceptions the modelled functions can raise.\<close>

datatype py_error = KeyError | TypeError | AttributeError | ValueError

type_synonym fragrance = "string \<rightharpoonup> pyval"

text \<open>Python truth value, as tested by \<open>if x\<close> and \<open>not x\<close>.\<close>

fun truthy :: "pyval \<Rightarrow> bool" where
  "truthy VNone = False"
| "truthy (VBool b) = b"
| "truthy (VNum x) = (x \<noteq> 0)"
| "truthy (VStr s) = (s \<noteq> [])"
| "truthy (VList xs) = (xs \<noteq> [])"

section \<open>04\_database\_importer.py: \<open>validate_fragrance_data\<close>\<close>

text \<open>
  The function appends one message per failed check to \<open>errors\<close> and returns
  \<open>(len(errors) == 0, errors)\<close>. Each message is modelled by a constructor that keeps
  the values the f-string prints.
  \<^verbatim>\<open>
  required_fields = ['id', 'brand_id', 'name', 'slug', 'gender']
  for field in required_fields:
      if field not in fragrance or not fragrance[field]:
          errors.append(f"Missing required field: {field}")
  if 'main_accords' not in fragrance and 'accords' not in fragrance:
      errors.append("Missing accords data (need 'main_accords' or 'accords')")
  if 'gender' in fragrance:
      valid_genders = ['men', 'women', 'unisex']
      if fragrance['gender'] not in valid_genders:
          errors.append(f"Invalid gender: ...")
  if 'rating_value' in fragrance and fragrance['rating_value'] is not None:
      rating = fragrance['rating_value']
      if not (0.0 <= rating <= 5.0):
          errors.append(f"Invalid rating_value: ...")
  if 'sample_price_usd' in fragrance and fragrance['sample_price_usd'] is not None:
      price = fragrance['sample_price_usd']
      if not (0 <= price <= 100):
          errors.append(f"Invalid sample_price_usd: ...")
  if 'id' in fragrance and 'brand_id' in fragrance:
      if not fragrance['id'].startswith(fragrance['brand_id'] + '__'):
          errors.append(f"ID format mismatch: ...")
  return len(errors) == 0, errors
  \<close>
\<close>

datatype validation_error =
    MissingRequired string
  | MissingAccords
  | InvalidGender pyval
  | InvalidRating pyval
  | InvalidPrice pyval
  | IdFormatMismatch string string

definition required_fields :: "string list" where
  "required_fields = [''id'', ''brand_id'', ''name'', ''slug'', ''gender'']"

definition valid_genders :: "pyval list" where
  "valid_genders = [VStr ''men'', VStr ''women'', VStr ''unisex'']"

definition missing_field :: "fragrance \<Rightarrow> string \<Rightarrow> bool" where
  "missing_field fragrance field =
     (case fragrance field of None \<Rightarrow> True | Some v \<Rightarrow> \<not> truthy v)"

text \<open>
  The chained comparison \<open>lo <= v <= hi\<close>: numbers and booleans compare by value, any
  other operand raises \<open>TypeError\<close> (\<open>None\<close> never reaches it).
\<close>

fun between :: "real \<Rightarrow> pyval \<Rightarrow> real \<Rightarrow> py_error + bool" where
  "between lo (VNum x) hi = Inr (lo \<le> x \<and> x \<le> hi)"
| "between lo (VBool b) hi = Inr (lo \<le> (if b then 1 else 0) \<and> (if b then 1 else 0) \<le> hi)"
| "between lo v hi = Inl TypeError"

definition check_rating ::
  "fragrance \<Rightarrow> validation_error list \<Rightarrow> py_error + validation_error list" where
  "check_rating fragrance errors =
     (case fragrance ''rating_value'' of
        None \<Rightarrow> Inr errors
      | Some VNone \<Rightarrow> Inr errors
      | Some rating \<Rightarrow>
          (case between 0 rating 5 of
             Inl e \<Rightarrow> Inl e
           | Inr ok \<Rightarrow> Inr (if \<not> ok then errors @ [InvalidRating rating] else errors)))"

definition check_price ::
  "fragrance \<Rightarrow> validation_error list \<Rightarrow> py_error + validation_error list" where
  "check_price fragrance errors =
     (case fragrance ''sample_price_usd'' of
        None \<Rightarrow> Inr errors
      | Some VNone \<Rightarrow> Inr errors
      | Some price \<Rightarrow>
          (case between 0 price 100 of
             Inl e \<Rightarrow> Inl e
           | Inr ok \<Rightarrow> Inr (if \<not> ok then errors @ [InvalidPrice price] else errors)))"

text \<open>
  \<open>fragrance['id'].startswith(fragrance['brand_id'] + '__')\<close>: the attribute lookup on a
  value that is not a string raises \<open>AttributeError\<close>, then the concatenation of a
  non-string with \<open>'__'\<close> raises \<open>TypeError\<close>.
\<close>

definition check_id_format ::
  "fragrance \<Rightarrow> validation_error list \<Rightarrow> py_error + validation_error list" where
  "check_id_format fragrance errors =
     (case (fragrance ''id'', fragrance ''brand_id'') of
        (Some i, Some b) \<Rightarrow>
          (case i of
             VStr id_str \<Rightarrow>
               (case b of
                  VStr brand_str \<Rightarrow>
                    Inr (if \<not> prefix (brand_str @ ''__'') id_str
                         then errors @ [IdFormatMismatch id_str brand_str] else errors)
                | _ \<Rightarrow> Inl TypeError)
           | _ \<Rightarrow> Inl AttributeError)
      | _ \<Rightarrow> Inr errors)"

definition validate_fragrance_data :: "fragrance \<Rightarrow> py_error + (bool \<times> validation_error list)" where
  "validate_fragrance_data fragrance =
     (let errors = [];
          errors = foldl (\<lambda>errors field.
                     if missing_field fragrance field then errors @ [MissingRequired field]
                     else errors) errors required_fields;
          errors = (if fragrance ''main_accords'' = None \<and> fragrance ''accords'' = None
                    then errors @ [MissingAccords] else errors);
          errors = (case fragrance ''gender'' of
                      None \<Rightarrow> errors
                    | Some g \<Rightarrow> if g \<notin> set valid_genders then errors @ [InvalidGender g]
                               else errors)
      in case check_rating fragrance errors of
           Inl e \<Rightarrow> Inl e
         | Inr errors \<Rightarrow>
             (case check_price fragrance errors of
                Inl e \<Rightarrow> Inl e
              | Inr errors \<Rightarrow>
                  (case check_id_format fragrance errors of
                     Inl e \<Rightarrow> Inl e
                   | Inr errors \<Rightarrow> Inr (errors = [], errors))))"


text \<open>
  The records on which no check raises: the rating and the price are absent, \<open>null\<close>,
  a number or a boolean, and \<open>id\<close> and \<open>brand_id\<close> are strings when both keys are
  present.
\<close>

fun numeric_or_absent :: "pyval option \<Rightarrow> bool" where
  "numeric_or_absent None = True"
| "numeric_or_absent (Some VNone) = True"
| "numeric_or_absent (Some (VNum x)) = True"
| "numeric_or_absent (Some (VBool b)) = True"
| "numeric_or_absent (Some v) = False"

fun is_str :: "pyval \<Rightarrow> bool" where
  "is_str (VStr s) = True"
| "is_str v = False"

definition well_typed :: "fragrance \<Rightarrow> bool" where
  "well_typed fragrance =
     (numeric_or_absent (fragrance ''rating_value'')
      \<and> numeric_or_absent (fragrance ''sample_price_usd'')
      \<and> (case (fragrance ''id'', fragrance ''brand_id'') of
            (Some i, Some b) \<Rightarrow> is_str i \<and> is_str b
          | _ \<Rightarrow> True))"

text \<open>Neither accords key is present.\<close>

definition no_accords :: "fragrance \<Rightarrow> bool" where
  "no_accords fragrance = (fragrance ''main_accords'' = None \<and> fragrance ''accords'' = None)"

definition count_true :: "bool list \<Rightarrow> nat" where
  "count_true bs = length (filter (\<lambda>b. b) bs)"

text \<open>
  \<open>repo_valid_fragrance\<close> is the record \<open>valid_fragrance\<close> of
  \<open>test_11_data_validation_functions\<close> in
  \<open>tests/test_database_integration_verification.py\<close>, which the test expects to pass.
\<close>

definition repo_valid_fragrance :: fragrance where
  "repo_valid_fragrance = [''id'' \<mapsto> VStr ''test-validation-brand__valid_fragrance'',
     ''brand_id'' \<mapsto> VStr ''test-validation-brand'',
     ''name'' \<mapsto> VStr ''Valid Test Fragrance'',
     ''slug'' \<mapsto> VStr ''valid-test-fragrance'',
     ''gender'' \<mapsto> VStr ''men'',
     ''main_accords'' \<mapsto> VList [VStr ''woody'', VStr ''spicy''],
     ''rating_value'' \<mapsto> VNum 4.2,
     ''rating_count'' \<mapsto> VNum 150]"

definition three_violations :: fragrance where
  "three_violations = [''id'' \<mapsto> VStr ''sauvage'',
     ''brand_id'' \<mapsto> VStr ''dior'',
     ''name'' \<mapsto> VStr ''Sauvage'',
     ''slug'' \<mapsto> VStr ''sauvage'',
     ''accords'' \<mapsto> VList [],
     ''rating_value'' \<mapsto> VNum 7]"

definition without_accords :: fragrance where
  "without_accords = [''id'' \<mapsto> VStr ''dior__sauvage'',
     ''brand_id'' \<mapsto> VStr ''dior'',
     ''name'' \<mapsto> VStr ''Sauvage'',
     ''slug'' \<mapsto> VStr ''sauvage'',
     ''gender'' \<mapsto> VStr ''men'']"

text \<open>The messages of the checks that cannot raise (required fields, accords, gender).\<close>

definition early_errors :: "fragrance \<Rightarrow> validation_error list" where
  "early_errors fragrance =
     map MissingRequired (filter (missing_field fragrance) required_fields)
     @ (if no_accords fragrance then [MissingAccords] else [])
     @ (case fragrance ''gender'' of None \<Rightarrow> []
        | Some g \<Rightarrow> if g \<notin> set valid_genders then [InvalidGender g] else [])"

text \<open>
  A record without \<open>gender\<close>, with \<open>rating_value = 7\<close> and with an \<open>id\<close> that starts with
  \<open>brand_id__\<close> but does not end with its \<open>slug\<close>.
\<close>

definition wrong_slug_record :: fragrance where
  "wrong_slug_record = [''id'' \<mapsto> VStr ''dior__wrong-slug'',
     ''brand_id'' \<mapsto> VStr ''dior'',
     ''name'' \<mapsto> VStr ''Sauvage'',
     ''slug'' \<mapsto> VStr ''sauvage'',
     ''accords'' \<mapsto> VList [],
     ''rating_value'' \<mapsto> VNum 7]"

section \<open>The validator's checks, stated on the record\<close>

text \<open>
  What each check of \<open>validate_fragrance_data\<close> should report, written directly on the
  record and without the helper functions of the model above. A required field fails
  when its key is absent or holds \<open>null\<close>, \<open>False\<close>, \<open>0\<close>, the empty string or the empty
  list; the \<open>id\<close> check fails when \<open>id\<close> and \<open>brand_id\<close> are strings and \<open>id\<close> does not
  start with \<open>brand_id\<close> followed by two underscores. \<open>expected_errors\<close> is the complete
  error list in the order of the source, \<open>failed_checks\<close> says which of the ten checks
  fail.
\<close>

definition empty_value :: "pyval option \<Rightarrow> bool" where
  "empty_value v =
     (v = None \<or> v = Some VNone \<or> v = Some (VBool False) \<or> v = Some (VNum 0)
      \<or> v = Some (VStr []) \<or> v = Some (VList []))"

definition required_part :: "fragrance \<Rightarrow> string \<Rightarrow> validation_error list" where
  "required_part fragrance field =
     (if empty_value (fragrance field) then [MissingRequired field] else [])"

definition accords_part :: "fragrance \<Rightarrow> validation_error list" where
  "accords_part fragrance =
     (if fragrance ''main_accords'' = None \<and> fragrance ''accords'' = None
      then [MissingAccords] else [])"

definition gender_part :: "fragrance \<Rightarrow> validation_error list" where
  "gender_part fragrance =
     (case fragrance ''gender'' of
        None \<Rightarrow> []
      | Some g \<Rightarrow> if g = VStr ''men'' \<or> g = VStr ''women'' \<or> g = VStr ''unisex'' then []
                 else [InvalidGender g])"

definition rating_part :: "fragrance \<Rightarrow> validation_error list" where
  "rating_part fragrance =
     (case fragrance ''rating_value'' of
        Some (VNum x) \<Rightarrow> if x < 0 \<or> 5 < x then [InvalidRating (VNum x)] else []
      | _ \<Rightarrow> [])"

definition price_part :: "fragrance \<Rightarrow> validation_error list" where
  "price_part fragrance =
     (case fragrance ''sample_price_usd'' of
        Some (VNum x) \<Rightarrow> if x < 0 \<or> 100 < x then [InvalidPrice (VNum x)] else []
      | _ \<Rightarrow> [])"

definition id_part :: "fragrance \<Rightarrow> validation_error list" where
  "id_part fragrance =
     (case (fragrance ''id'', fragrance ''brand_id'') of
        (Some (VStr i), Some (VStr b)) \<Rightarrow>
          if prefix (b @ ''__'') i then [] else [IdFormatMismatch i b]
      | _ \<Rightarrow> [])"

definition expected_errors :: "fragrance \<Rightarrow> validation_error list" where
  "expected_errors fragrance =
     required_part fragrance ''id'' @ required_part fragrance ''brand_id''
     @ required_part fragrance ''name'' @ required_part fragrance ''slug''
     @ required_part fragrance ''gender''
     @ accords_part fragrance @ gender_part fragrance @ rating_part fragrance
     @ price_part fragrance @ id_part fragrance"

definition failed_checks :: "fragrance \<Rightarrow> bool list" where
  "failed_checks fragrance =
     [empty_value (fragrance ''id''), empty_value (fragrance ''brand_id''),
      empty_value (fragrance ''name''), empty_value (fragrance ''slug''),
      empty_value (fragrance ''gender''),
      fragrance ''main_accords'' = None \<and> fragrance ''accords'' = None,
      (case fragrance ''gender'' of
         None \<Rightarrow> False
       | Some g \<Rightarrow> g \<noteq> VStr ''men'' \<and> g \<noteq> VStr ''women'' \<and> g \<noteq> VStr ''unisex''),
      (case fragrance ''rating_value'' of Some (VNum x) \<Rightarrow> x < 0 \<or> 5 < x | _ \<Rightarrow> False),
      (case fragrance ''sample_price_usd'' of Some (VNum x) \<Rightarrow> x < 0 \<or> 100 < x | _ \<Rightarrow> False),
      (case (fragrance ''id'', fragrance ''brand_id'') of
         (Some (VStr i), Some (VStr b)) \<Rightarrow> \<not> prefix (b @ ''__'') i
       | _ \<Rightarrow> False)]"

section \<open>04\_database\_importer.py: \<open>batch_upsert\<close>\<close>

text \<open>
  \<^verbatim>\<open>
  def batch_upsert(self, table, records):
      if not records:
          return 0, 0
      inserted = 0
      updated = 0
      for i in range(0, len(records), self.batch_size):
          batch = records[i:i + self.batch_size]
          try:
              response = requests.post(..., json=batch, timeout=60)
              if response.status_code in [200, 201]:
                  batch_size = len(batch)
                  inserted += batch_size
                  self.logger.info(...)
              else:
                  self.logger.error(...)
          except Exception as e:
              self.logger.error(...)
      return inserted, updated
  \<close>
  The Store is a state machine: \<open>post st batch\<close> is one \<open>requests.post\<close> call in store
  state \<open>st\<close>, giving the response (a status code, or \<open>Raised\<close> when the call raises)
  and the next state. \<open>self.batch_size\<close> is set to 100 in \<open>__init__\<close>. The log lines are
  left out.
\<close>

datatype response = Status nat | Raised

definition succeeded :: "response \<Rightarrow> bool" where
  "succeeded r = (r = Status 200 \<or> r = Status 201)"

type_synonym ('st, 'r) store = "'st \<Rightarrow> 'r list \<Rightarrow> response \<times> 'st"

definition batch_size :: nat where
  "batch_size = 100"

text \<open>The \<open>for\<close> loop, with the index \<open>i\<close> of \<open>range(0, len(records), batch_size)\<close>.\<close>

function upsert_batches ::
  "('st, 'r) store \<Rightarrow> nat \<Rightarrow> 'r list \<Rightarrow> nat \<Rightarrow> nat \<Rightarrow> 'st \<Rightarrow> nat \<times> 'st" where
  "upsert_batches post bs records i inserted st =
     (if bs = 0 \<or> length records \<le> i then (inserted, st)
      else (let batch = take bs (drop i records);
                (response, st') = post st batch;
                inserted' = (if succeeded response then inserted + length batch else inserted)
            in upsert_batches post bs records (i + bs) inserted' st'))"
  by pat_completeness auto
termination
  by (relation "measure (\<lambda>(post, bs, records, i, inserted, st). length records - i)") auto

declare upsert_batches.simps [simp del]

definition batch_upsert :: "('st, 'r) store \<Rightarrow> 'r list \<Rightarrow> 'st \<Rightarrow> (nat \<times> nat) \<times> 'st" where
  "batch_upsert post records st =
     (if records = [] then ((0, 0), st)
      else (let (inserted, st') = upsert_batches post batch_size records 0 0 st;
                updated = 0
            in ((inserted, updated), st')))"

text \<open>
  Posting a given list of batches one after the other, each exactly once, threading
  the store state; the first component counts the records of the batches answered 200
  or 201.
\<close>

fun submit_all :: "('st, 'r) store \<Rightarrow> 'st \<Rightarrow> 'r list list \<Rightarrow> nat \<times> 'st" where
  "submit_all post st [] = (0, st)"
| "submit_all post st (batch # rest) =
     (let (response, st') = post st batch;
          (n, st'') = submit_all post st' rest
      in ((if succeeded response then length batch else 0) + n, st''))"

text \<open>A store that answers 500 to its second request and 201 to the others; its state
  counts the requests.\<close>

definition failing_second :: "(nat, nat) store" where
  "failing_second calls batch = (if calls = 1 then Status 500 else Status 201, Suc calls)"

section \<open>fix\_data\_for\_import.py: \<open>remove_duplicates\<close>\<close>

text \<open>
  \<^verbatim>\<open>
  def remove_duplicates(fragrances):
      id_groups = defaultdict(list)
      for fragrance in fragrances:
          id_groups[fragrance['id']].append(fragrance)
      deduplicated = []
      for frag_id, group in id_groups.items():
          if len(group) == 1:
              deduplicated.append(group[0])
          else:
              def record_quality_score(record):
                  score = 0
                  score += 10 if record.get('rating_value') else 0
                  score += 10 if record.get('rating_count') else 0
                  score += 5 if record.get('top_notes') else 0
                  score += 5 if record.get('middle_notes') else 0
                  score += 5 if record.get('base_notes') else 0
                  score += 3 if record.get('perfumers') else 0
                  score += 1 if record.get('fragrantica_url') else 0
                  return score
              best_record = max(group, key=record_quality_score)
              deduplicated.append(best_record)
      return deduplicated
  \<close>
  A dictionary key is the value up to Python equality and hashing: \<open>True\<close> and \<open>1\<close> and
  \<open>1.0\<close> are one key, a list is unhashable (\<open>TypeError\<close>), a record without \<open>'id'\<close>
  raises \<open>KeyError\<close>. The dictionary keeps its keys in insertion order, so \<open>id_groups\<close>
  is an association list in the order of first occurrence.
\<close>

datatype pykey = KNone | KNum real | KStr string

fun hash_key :: "pyval \<Rightarrow> py_error + pykey" where
  "hash_key VNone = Inr KNone"
| "hash_key (VBool b) = Inr (KNum (if b then 1 else 0))"
| "hash_key (VNum x) = Inr (KNum x)"
| "hash_key (VStr s) = Inr (KStr s)"
| "hash_key (VList xs) = Inl TypeError"

definition record_key :: "fragrance \<Rightarrow> py_error + pykey" where
  "record_key fragrance =
     (case fragrance ''id'' of None \<Rightarrow> Inl KeyError | Some v \<Rightarrow> hash_key v)"

type_synonym id_groups = "(pykey \<times> fragrance list) list"

text \<open>\<open>id_groups[k].append(fragrance)\<close> on the \<open>defaultdict(list)\<close>.\<close>

fun group_append :: "'k \<Rightarrow> 'v \<Rightarrow> ('k \<times> 'v list) list \<Rightarrow> ('k \<times> 'v list) list" where
  "group_append k fragrance [] = [(k, [fragrance])]"
| "group_append k fragrance ((k', grp) # rest) =
     (if k' = k then (k', grp @ [fragrance]) # rest
      else (k', grp) # group_append k fragrance rest)"

fun group_by_id :: "fragrance list \<Rightarrow> id_groups \<Rightarrow> py_error + id_groups" where
  "group_by_id [] id_groups = Inr id_groups"
| "group_by_id (fragrance # rest) id_groups =
     (case record_key fragrance of
        Inl e \<Rightarrow> Inl e
      | Inr k \<Rightarrow> group_by_id rest (group_append k fragrance id_groups))"

text \<open>\<open>record.get(k)\<close> used as a condition: an absent key gives \<open>None\<close>, which is false.\<close>

definition get_truthy :: "fragrance \<Rightarrow> string \<Rightarrow> bool" where
  "get_truthy record k = (case record k of None \<Rightarrow> False | Some v \<Rightarrow> truthy v)"

definition record_quality_score :: "fragrance \<Rightarrow> nat" where
  "record_quality_score record =
     (if get_truthy record ''rating_value'' then 10 else 0)
     + (if get_truthy record ''rating_count'' then 10 else 0)
     + (if get_truthy record ''top_notes'' then 5 else 0)
     + (if get_truthy record ''middle_notes'' then 5 else 0)
     + (if get_truthy record ''base_notes'' then 5 else 0)
     + (if get_truthy record ''perfumers'' then 3 else 0)
     + (if get_truthy record ''fragrantica_url'' then 1 else 0)"

text \<open>
  \<open>max(group, key=...)\<close> walks the list once and replaces the current best only by a
  strictly greater element; on an empty list it raises \<open>ValueError\<close>.
\<close>

fun max_from :: "('a \<Rightarrow> nat) \<Rightarrow> 'a \<Rightarrow> 'a list \<Rightarrow> 'a" where
  "max_from key best [] = best"
| "max_from key best (x # xs) = max_from key (if key best < key x then x else best) xs"

fun py_max :: "('a \<Rightarrow> nat) \<Rightarrow> 'a list \<Rightarrow> py_error + 'a" where
  "py_max key [] = Inl ValueError"
| "py_max key (x # xs) = Inr (max_from key x xs)"

fun select_records :: "id_groups \<Rightarrow> fragrance list \<Rightarrow> py_error + fragrance list" where
  "select_records [] deduplicated = Inr deduplicated"
| "select_records ((frag_id, grp) # rest) deduplicated =
     (case grp of
        [only] \<Rightarrow> select_records rest (deduplicated @ [only])
      | _ \<Rightarrow> (case py_max record_quality_score grp of
                Inl e \<Rightarrow> Inl e
              | Inr best_record \<Rightarrow> select_records rest (deduplicated @ [best_record])))"

definition remove_duplicates :: "fragrance list \<Rightarrow> py_error + fragrance list" where
  "remove_duplicates fragrances =
     (case group_by_id fragrances [] of
        Inl e \<Rightarrow> Inl e
      | Inr id_groups \<Rightarrow> select_records id_groups [])"

text \<open>Records for the concrete evaluations below.\<close>

definition rec_a :: fragrance where
  "rec_a = [''id'' \<mapsto> VStr ''dior__sauvage'', ''name'' \<mapsto> VStr ''Sauvage'',
            ''rating_count'' \<mapsto> VNum 19581]"
definition rec_b :: fragrance where
  "rec_b = [''id'' \<mapsto> VStr ''dior__sauvage'', ''name'' \<mapsto> VStr ''Sauvage'',
            ''rating_count'' \<mapsto> VNone]"
definition rec_c :: fragrance where
  "rec_c = [''id'' \<mapsto> VStr ''chanel__no5'']"

definition rec_none :: fragrance where
  "rec_none = [''id'' \<mapsto> VStr ''dior__sauvage'', ''name'' \<mapsto> VStr ''Sauvage'']"

definition rec_zero :: fragrance where
  "rec_zero = rec_none(''rating_count'' \<mapsto> VNum 0)"

text \<open>
  The heuristic in the words of the specification, for comparison with
  \<open>record_quality_score\<close>: a rating or a URL counts when it is present (the key holds a
  value other than \<open>null\<close>), notes and perfumers count when non-empty.
\<close>

definition present :: "fragrance \<Rightarrow> string \<Rightarrow> bool" where
  "present record k = (case record k of None \<Rightarrow> False | Some VNone \<Rightarrow> False | Some v \<Rightarrow> True)"

definition claimed_quality_score :: "fragrance \<Rightarrow> nat" where
  "claimed_quality_score record =
     (if present record ''rating_value'' then 10 else 0)
     + (if present record ''rating_count'' then 10 else 0)
     + (if get_truthy record ''top_notes'' then 5 else 0)
     + (if get_truthy record ''middle_notes'' then 5 else 0)
     + (if get_truthy record ''base_notes'' then 5 else 0)
     + (if get_truthy record ''perfumers'' then 3 else 0)
     + (if present record ''fragrantica_url'' then 1 else 0)"

text \<open>
  The group stored under a key, and the record the second loop appends for a non-empty
  group (for a group of one, \<open>max_from\<close> returns that one).
\<close>

definition members :: "('k \<times> 'v list) list \<Rightarrow> 'k \<Rightarrow> 'v list" where
  "members id_groups k = (case map_of id_groups k of None \<Rightarrow> [] | Some grp \<Rightarrow> grp)"

definition best_of :: "fragrance list \<Rightarrow> fragrance" where
  "best_of grp = max_from record_quality_score (hd grp) (tl grp)"

section \<open>fix\_duplicate\_names.py: \<open>fix_duplicate_names\<close>\<close>

text \<open>
  \<^verbatim>\<open>
  name_groups = defaultdict(list)
  for fragrance in fragrances:
      key = (fragrance.get('brand_id', ''), fragrance.get('name', ''))
      name_groups[key].append(fragrance)
  fixed_fragrances = []
  for (brand_id, name), group in name_groups.items():
      if len(group) == 1:
          fixed_fragrances.extend(group)
      else:
          for i, fragrance in enumerate(group):
              fixed = fragrance.copy()
              original_id = fragrance.get('id', '')
              id_parts = original_id.split('__')
              if len(id_parts) == 2:
                  brand_part, name_part = id_parts
                  concentrations = {'eau-de-toilette': 'EDT', 'eau-de-parfum': 'EDP',
                      'parfum': 'Parfum', 'extrait': 'Extrait', 'cologne': 'Cologne',
                      'eau-fraiche': 'Eau Fraiche'}
                  distinguisher = None
                  for conc_id, conc_name in concentrations.items():
                      if conc_id in name_part:
                          distinguisher = conc_name
                          break
                  if not distinguisher:
                      year_match = re.search(r'(19|20)\d{2}', name_part)
                      if year_match:
                          distinguisher = year_match.group()
                  if not distinguisher:
                      version_words = ['intense', 'extreme', 'absolu', 'noir', 'sport',
                                       'aqua', 'fresh', 'cologne', 'elixir']
                      for word in version_words:
                          if word in name_part:
                              distinguisher = word.title()
                              break
                  if distinguisher:
                      if distinguisher not in fixed['name']:
                          fixed['name'] = f"{fixed['name']} {distinguisher}"
                  else:
                      if i > 0:
                          fixed['name'] = f"{fixed['name']} ({i+1})"
              fixed_fragrances.append(fixed)
  final_keys = set()
  remaining_duplicates = 0
  for fragrance in fixed_fragrances:
      key = (fragrance.get('brand_id', ''), fragrance.get('name', ''))
      if key in final_keys:
          remaining_duplicates += 1
      else:
          final_keys.add(key)
  ...
  return len(fixed_fragrances), remaining_duplicates
  \<close>
  The script reads only the keys \<open>brand_id\<close>, \<open>name\<close> and \<open>id\<close>. A record of the input
  file is modelled as an \<open>entry\<close>: each of the three keys is absent (\<open>None\<close>) or holds a
  string, and every other key travels in the extension of the record. Strings are lists
  of code points below 256, so \<open>\d\<close> is \<open>[0-9]\<close>. The model returns the list written to
  \<open>fragrances_fixed_duplicates.json\<close> together with \<open>remaining_duplicates\<close>; the first
  component of the Python result is the length of that list.
\<close>

record entry =
  e_brand_id :: "string option"
  e_name :: "string option"
  e_id :: "string option"

text \<open>\<open>fragrance.get(k, '')\<close> on a key that is absent or holds a string.\<close>

definition get_or_empty :: "string option \<Rightarrow> string" where
  "get_or_empty v = (case v of None \<Rightarrow> '''' | Some s \<Rightarrow> s)"

definition name_key :: "'a entry_scheme \<Rightarrow> string \<times> string" where
  "name_key fragrance = (get_or_empty (e_brand_id fragrance), get_or_empty (e_name fragrance))"

text \<open>Filling the \<open>defaultdict(list)\<close> in input order; grouping itself cannot raise here.\<close>

fun group_all :: "('v \<Rightarrow> 'k) \<Rightarrow> 'v list \<Rightarrow> ('k \<times> 'v list) list \<Rightarrow> ('k \<times> 'v list) list" where
  "group_all key [] groups = groups"
| "group_all key (x # xs) groups = group_all key xs (group_append (key x) x groups)"

text \<open>
  \<open>s.split('__')\<close>: the separators are found from left to right without overlap;
  \<open>piece\<close> holds the current piece in reverse.
\<close>

fun split_acc :: "string \<Rightarrow> string \<Rightarrow> string list" where
  "split_acc piece (c # d # cs) =
     (if c = CHR ''_'' \<and> d = CHR ''_'' then rev piece # split_acc [] cs
      else split_acc (c # piece) (d # cs))"
| "split_acc piece [c] = [rev (c # piece)]"
| "split_acc piece [] = [rev piece]"

definition py_split :: "string \<Rightarrow> string list" where
  "py_split s = split_acc [] s"

definition concentrations :: "(string \<times> string) list" where
  "concentrations =
     [(''eau-de-toilette'', ''EDT''), (''eau-de-parfum'', ''EDP''), (''parfum'', ''Parfum''),
      (''extrait'', ''Extrait''), (''cologne'', ''Cologne''), (''eau-fraiche'', ''Eau Fraiche'')]"

text \<open>\<open>re.search(r'(19|20)\d{2}', s)\<close>: the leftmost position where the pattern matches,
  and the four characters matched there.\<close>

definition is_digit :: "char \<Rightarrow> bool" where
  "is_digit c = (c \<in> set ''0123456789'')"

fun year_at :: "string \<Rightarrow> bool" where
  "year_at (a # b # c # d # rest) =
     (((a = CHR ''1'' \<and> b = CHR ''9'') \<or> (a = CHR ''2'' \<and> b = CHR ''0''))
      \<and> is_digit c \<and> is_digit d)"
| "year_at s = False"

fun year_search :: "string \<Rightarrow> string option" where
  "year_search [] = None"
| "year_search (c # cs) = (if year_at (c # cs) then Some (take 4 (c # cs)) else year_search cs)"

definition version_words :: "string list" where
  "version_words = [''intense'', ''extreme'', ''absolu'', ''noir'', ''sport'', ''aqua'',
                    ''fresh'', ''cologne'', ''elixir'']"

text \<open>\<open>word.title()\<close> on one of the lower-case words above: the first letter becomes a
  capital.\<close>

definition py_title :: "string \<Rightarrow> string" where
  "py_title w =
     (case w of [] \<Rightarrow> []
      | c # cs \<Rightarrow> (case map_of (zip ''abcdefghijklmnopqrstuvwxyz'' ''ABCDEFGHIJKLMNOPQRSTUVWXYZ'') c of
                    Some u \<Rightarrow> u | None \<Rightarrow> c) # cs)"

definition find_distinguisher :: "string \<Rightarrow> string option" where
  "find_distinguisher name_part =
     (case find (\<lambda>(conc_id, conc_name). str_in conc_id name_part) concentrations of
        Some (conc_id, conc_name) \<Rightarrow> Some conc_name
      | None \<Rightarrow>
          (case year_search name_part of
             Some year \<Rightarrow> Some year
           | None \<Rightarrow>
               (case find (\<lambda>word. str_in word name_part) version_words of
                  Some word \<Rightarrow> Some (py_title word)
                | None \<Rightarrow> None)))"

text \<open>The decimal digits of \<open>i + 1\<close> in the f-string.\<close>

fun digit_char :: "nat \<Rightarrow> char" where
  "digit_char n = (''0123456789'' ! (n mod 10))"

function py_str_nat :: "nat \<Rightarrow> string" where
  "py_str_nat n = (if n < 10 then [digit_char n] else py_str_nat (n div 10) @ [digit_char n])"
  by pat_completeness auto
termination
  by (relation "measure id") auto

declare py_str_nat.simps [simp del]

text \<open>
  The body of the inner loop for the member at position \<open>i\<close>. \<open>fixed['name']\<close> raises
  \<open>KeyError\<close> when the key is absent.
\<close>

definition fix_member :: "nat \<Rightarrow> 'a entry_scheme \<Rightarrow> py_error + 'a entry_scheme" where
  "fix_member i fragrance =
     (let fixed = fragrance;
          original_id = get_or_empty (e_id fragrance);
          id_parts = py_split original_id
      in case id_parts of
           [brand_part, name_part] \<Rightarrow>
             (case find_distinguisher name_part of
                Some distinguisher \<Rightarrow>
                  (case e_name fixed of
                     None \<Rightarrow> Inl KeyError
                   | Some n \<Rightarrow>
                       if \<not> str_in distinguisher n
                       then Inr (fixed\<lparr>e_name := Some (n @ '' '' @ distinguisher)\<rparr>)
                       else Inr fixed)
              | None \<Rightarrow>
                  if i > 0
                  then (case e_name fixed of
                          None \<Rightarrow> Inl KeyError
                        | Some n \<Rightarrow>
                            Inr (fixed\<lparr>e_name := Some (n @ '' ('' @ py_str_nat (i + 1) @ '')'')\<rparr>))
                  else Inr fixed)
         | _ \<Rightarrow> Inr fixed)"

fun fix_group :: "nat \<Rightarrow> 'a entry_scheme list \<Rightarrow> 'a entry_scheme list
                  \<Rightarrow> py_error + 'a entry_scheme list" where
  "fix_group i [] fixed_fragrances = Inr fixed_fragrances"
| "fix_group i (fragrance # rest) fixed_fragrances =
     (case fix_member i fragrance of
        Inl e \<Rightarrow> Inl e
      | Inr fixed \<Rightarrow> fix_group (Suc i) rest (fixed_fragrances @ [fixed]))"

fun fix_groups :: "((string \<times> string) \<times> 'a entry_scheme list) list \<Rightarrow> 'a entry_scheme list
                   \<Rightarrow> py_error + 'a entry_scheme list" where
  "fix_groups [] fixed_fragrances = Inr fixed_fragrances"
| "fix_groups ((k, grp) # rest) fixed_fragrances =
     (if length grp = 1 then fix_groups rest (fixed_fragrances @ grp)
      else (case fix_group 0 grp fixed_fragrances of
              Inl e \<Rightarrow> Inl e
            | Inr fixed_fragrances \<Rightarrow> fix_groups rest fixed_fragrances))"

text \<open>The verification loop that counts the records whose key was already seen.\<close>

fun count_remaining :: "'a entry_scheme list \<Rightarrow> (string \<times> string) set \<Rightarrow> nat \<Rightarrow> nat" where
  "count_remaining [] final_keys remaining_duplicates = remaining_duplicates"
| "count_remaining (fragrance # rest) final_keys remaining_duplicates =
     (if name_key fragrance \<in> final_keys
      then count_remaining rest final_keys (remaining_duplicates + 1)
      else count_remaining rest (insert (name_key fragrance) final_keys) remaining_duplicates)"

definition fix_duplicate_names ::
  "'a entry_scheme list \<Rightarrow> py_error + ('a entry_scheme list \<times> nat)" where
  "fix_duplicate_names fragrances =
     (let name_groups = group_all name_key fragrances []
      in case fix_groups name_groups [] of
           Inl e \<Rightarrow> Inl e
         | Inr fixed_fragrances \<Rightarrow>
             Inr (fixed_fragrances, count_remaining fixed_fragrances {} 0))"

text \<open>Records for the concrete evaluations below.\<close>

definition edp_one :: entry where
  "edp_one = \<lparr>e_brand_id = Some ''dior'', e_name = Some ''Sauvage'',
              e_id = Some ''dior__sauvage-eau-de-parfum''\<rparr>"

definition edp_two :: entry where
  "edp_two = \<lparr>e_brand_id = Some ''dior'', e_name = Some ''Sauvage'',
              e_id = Some ''dior__sauvage-eau-de-parfum-2018''\<rparr>"

definition plain_one :: entry where
  "plain_one = \<lparr>e_brand_id = Some ''dior'', e_name = Some ''Sauvage'',
              e_id = Some ''dior__sauvage''\<rparr>"

definition plain_two :: entry where
  "plain_two = \<lparr>e_brand_id = Some ''dior'', e_name = Some ''Sauvage'',
              e_id = Some ''dior__sauvage-2''\<rparr>"

text \<open>
  The name a member of a group of two or more should end with, read off the record:
  with an \<open>id\<close> of exactly two parts, the token found in the second part is appended
  after a space unless the name contains it already; without a token the first member
  keeps its name and the member at position \<open>i > 0\<close> gets \<open>(i+1)\<close> in parentheses; with
  any other \<open>id\<close> the name stays. \<open>expected_group\<close> is the block a whole group contributes
  to the output.
\<close>

definition expected_name :: "nat \<Rightarrow> 'a entry_scheme \<Rightarrow> string option" where
  "expected_name i fragrance =
     (case e_name fragrance of
        None \<Rightarrow> None
      | Some n \<Rightarrow>
          Some (case py_split (get_or_empty (e_id fragrance)) of
                  [brand_part, name_part] \<Rightarrow>
                    (case find_distinguisher name_part of
                       Some token \<Rightarrow> if str_in token n then n else n @ '' '' @ token
                     | None \<Rightarrow> if i = 0 then n else n @ '' ('' @ py_str_nat (Suc i) @ '')'')
                | _ \<Rightarrow> n))"

definition expected_group :: "'a entry_scheme list \<Rightarrow> 'a entry_scheme list" where
  "expected_group grp =
     (if length grp = 1 then grp
      else map (\<lambda>(i, fragrance). fragrance\<lparr>e_name := expected_name i fragrance\<rparr>)
             (enumerate 0 grp))"

section \<open>Gender normalisation: the \<open>women\<close> branch\<close>

lemma str_in_iff: "str_in sub s \<longleftrightarrow> (\<exists>us vs. s = us @ sub @ vs)"
proof (induction s)
  case Nil
  then show ?case by auto
next
  case (Cons c cs)
  show ?case
  proof
    assume "str_in sub (c # cs)"
    then consider "prefix sub (c # cs)" | "str_in sub cs" by auto
    then show "\<exists>us vs. c # cs = us @ sub @ vs"
    proof cases
      case 1
      then obtain vs where "c # cs = sub @ vs" by (auto simp: prefix_def)
      then have "c # cs = [] @ sub @ vs" by simp
      then show ?thesis by blast
    next
      case 2
      with Cons.IH obtain us vs where "cs = us @ sub @ vs" by blast
      then have "c # cs = (c # us) @ sub @ vs" by simp
      then show ?thesis by blast
    qed
  next
    assume "\<exists>us vs. c # cs = us @ sub @ vs"
    then obtain us vs where e: "c # cs = us @ sub @ vs" by blast
    show "str_in sub (c # cs)"
    proof (cases us)
      case Nil
      with e have "prefix sub (c # cs)" by (simp add: prefix_def)
      then show ?thesis by simp
    next
      case (Cons u us')
      with e have "cs = us' @ sub @ vs" by simp
      with Cons.IH have "str_in sub cs" by blast
      then show ?thesis by simp
    qed
  qed
qed

lemma women_contains_men: "str_in ''women'' s \<Longrightarrow> str_in ''men'' s"
proof -
  assume "str_in ''women'' s"
  then obtain us vs where "s = us @ ''women'' @ vs" by (auto simp: str_in_iff)
  then have "s = (us @ ''wo'') @ ''men'' @ vs" by simp
  then show ?thesis unfolding str_in_iff by blast
qed

lemma gender_normalized_never_women: "gender_normalized g \<noteq> ''women''"
  using women_contains_men by (auto simp: gender_normalized_def Let_def)

text \<open>
  C1 (code evaluated at the failing input). The claim asks for \<open>women\<close> on the input
  \<open>for women only\<close>; the substring test \<open>'men' not in gender\<close> is false on every string that
  contains \<open>women\<close>, so the code answers \<open>unisex\<close>.
\<close>

theorem gender_for_women_only: "gender_normalized ''for women only'' = ''unisex''"
  by (simp add: gender_normalized_def py_strip_def strip_chars_def py_lower_def
      py_lower_char_def upper_chars_def lower_chars_def py_isspace_def Let_def)

section \<open>Well-formedness of generated identifiers\<close>

lemma hyphen_not_slug_char [simp]: "\<not> is_slug_char CHR ''-''"
  by (simp add: is_slug_char_def)

lemma str_in_Cons: "str_in sub (c # cs) = (prefix sub (c # cs) \<or> str_in sub cs)"
  by simp

lemma prefix_double_hyphen:
  "prefix ''--'' (c # cs) \<longleftrightarrow> c = CHR ''-'' \<and> cs \<noteq> [] \<and> hd cs = CHR ''-''"
  by (cases cs) auto

lemma double_hyphen_Cons:
  "str_in ''--'' (c # cs) \<longleftrightarrow> (c = CHR ''-'' \<and> cs \<noteq> [] \<and> hd cs = CHR ''-'') \<or> str_in ''--'' cs"
  using prefix_double_hyphen by simp

lemma double_hyphen_Nil [simp]: "\<not> str_in ''--'' []"
  by simp

lemma slug_block_iff:
  "slug_block inside s \<longleftrightarrow>
     list_all slug_alphabet s \<and> \<not> str_in ''--'' s \<and> (s = [] \<longrightarrow> inside)
     \<and> (s \<noteq> [] \<longrightarrow> last s \<noteq> CHR ''-'' \<and> (\<not> inside \<longrightarrow> hd s \<noteq> CHR ''-''))"
proof (induction s arbitrary: inside)
  case Nil
  then show ?case by simp
next
  case (Cons c cs)
  show ?case
  proof (cases "is_slug_char c")
    case True
    then have "c \<noteq> CHR ''-''" by auto
    with True Cons.IH [of True] show ?thesis
      by (auto simp: double_hyphen_Cons slug_alphabet_def simp del: str_in.simps)
  next
    case False
    with Cons.IH [of False] show ?thesis
      by (auto simp: double_hyphen_Cons slug_alphabet_def simp del: str_in.simps)
  qed
qed

lemma matches_slug_regex_iff: "matches_slug_regex s \<longleftrightarrow> well_formed_slug s"
  unfolding matches_slug_regex_def well_formed_slug_def slug_block_iff by auto

lemma re_sub_alphabet: "list_all slug_alphabet (re_sub_non_alnum t)"
  by (induction t rule: re_sub_non_alnum.induct) (auto simp: slug_alphabet_def)

lemma re_sub_hd:
  "t \<noteq> [] \<Longrightarrow> is_slug_char (hd t) \<Longrightarrow> re_sub_non_alnum t \<noteq> [] \<and> hd (re_sub_non_alnum t) = hd t"
  by (cases t) auto

lemma dropWhile_non_slug_hd:
  "dropWhile (\<lambda>d. \<not> is_slug_char d) cs \<noteq> [] \<Longrightarrow> is_slug_char (hd (dropWhile (\<lambda>d. \<not> is_slug_char d) cs))"
  using hd_dropWhile [of "\<lambda>d. \<not> is_slug_char d" cs] by simp

lemma re_sub_Nil: "re_sub_non_alnum t = [] \<longleftrightarrow> t = []"
  by (cases t) auto

lemma re_sub_no_double: "\<not> str_in ''--'' (re_sub_non_alnum t)"
proof (induction t rule: re_sub_non_alnum.induct)
  case 1
  then show ?case by simp
next
  case (2 c cs)
  show ?case
  proof (cases "is_slug_char c")
    case True
    then have "c \<noteq> CHR ''-''" by auto
    with True 2 show ?thesis by (simp add: double_hyphen_Cons del: str_in.simps)
  next
    case False
    let ?r = "dropWhile (\<lambda>d. \<not> is_slug_char d) cs"
    have ih: "\<not> str_in ''--'' (re_sub_non_alnum ?r)" using 2 False by simp
    have "re_sub_non_alnum ?r \<noteq> [] \<Longrightarrow> hd (re_sub_non_alnum ?r) \<noteq> CHR ''-''"
    proof -
      assume "re_sub_non_alnum ?r \<noteq> []"
      then have ne: "?r \<noteq> []" by (simp add: re_sub_Nil)
      then have "is_slug_char (hd ?r)" by (rule dropWhile_non_slug_hd)
      with ne have "hd (re_sub_non_alnum ?r) = hd ?r" "is_slug_char (hd ?r)"
        using re_sub_hd by auto
      then show ?thesis by auto
    qed
    with ih False show ?thesis by (auto simp add: double_hyphen_Cons simp del: str_in.simps)
  qed
qed

lemma filter_dropWhile_neg: "filter P (dropWhile (\<lambda>d. \<not> P d) xs) = filter P xs"
  by (induction xs) auto

lemma re_sub_slug_chars: "filter is_slug_char (re_sub_non_alnum t) = filter is_slug_char t"
  by (induction t rule: re_sub_non_alnum.induct) (auto simp: filter_dropWhile_neg)

lemma rev_dropWhile_split:
  "v = rev (dropWhile p (rev v)) @ rev (takeWhile p (rev v))"
proof -
  have "rev (rev v) = rev (takeWhile p (rev v) @ dropWhile p (rev v))"
    by (simp only: takeWhile_dropWhile_id)
  then show ?thesis by (simp only: rev_rev_ident rev_append)
qed

lemma strip_chars_block: "\<exists>us vs. s = us @ strip_chars p s @ vs"
proof -
  let ?v = "dropWhile p s"
  have 1: "s = takeWhile p s @ ?v" by simp
  have 2: "?v = strip_chars p s @ rev (takeWhile p (rev ?v))"
    unfolding strip_chars_def by (rule rev_dropWhile_split)
  have "s = takeWhile p s @ strip_chars p s @ rev (takeWhile p (rev ?v))"
    using 1 2 by simp
  then show ?thesis by blast
qed

lemma strip_chars_ends:
  assumes "strip_chars p s \<noteq> []"
  shows "\<not> p (hd (strip_chars p s))" and "\<not> p (last (strip_chars p s))"
proof -
  let ?v = "dropWhile p s"
  let ?w = "dropWhile p (rev ?v)"
  have w: "?w \<noteq> []" using assms by (simp add: strip_chars_def)
  then have "\<not> p (hd ?w)" using hd_dropWhile by blast
  moreover have "last (strip_chars p s) = hd ?w" using w by (simp add: strip_chars_def last_rev)
  ultimately show "\<not> p (last (strip_chars p s))" by simp
  have v: "?v \<noteq> []"
  proof
    assume "?v = []"
    then have "rev ?v = []" by (simp only: rev.simps)
    then have "?w = []" by (simp only: dropWhile.simps)
    with w show False by (simp only: not_True_eq_False)
  qed
  then have nv: "\<not> p (hd ?v)" using hd_dropWhile by blast
  have "last (takeWhile p (rev ?v) @ ?w) = last ?w" using w by (rule last_appendR)
  then have "last (rev ?v) = last ?w" by (simp only: takeWhile_dropWhile_id)
  then have "last ?w = hd ?v" using v by (simp add: last_rev)
  moreover have "hd (strip_chars p s) = last ?w" using w by (simp add: strip_chars_def hd_rev)
  ultimately show "\<not> p (hd (strip_chars p s))" using nv by simp
qed

lemma dropWhile_Nil_iff: "dropWhile p s = [] \<longleftrightarrow> list_all p s"
  by (induction s) auto

lemma strip_chars_Nil: "strip_chars p s = [] \<longleftrightarrow> list_all p s"
proof
  assume "list_all p s"
  then have "dropWhile p s = []" using dropWhile_Nil_iff by blast
  then show "strip_chars p s = []" by (simp only: strip_chars_def rev.simps dropWhile.simps)
next
  assume e: "strip_chars p s = []"
  show "list_all p s"
  proof (rule ccontr)
    assume "\<not> list_all p s"
    then have v: "dropWhile p s \<noteq> []" using dropWhile_Nil_iff by blast
    then have "\<not> p (hd (dropWhile p s))" using hd_dropWhile by blast
    moreover have "hd (dropWhile p s) \<in> set (rev (dropWhile p s))"
      using v by (simp del: dropWhile_eq_Nil_conv)
    ultimately have "\<not> list_all p (rev (dropWhile p s))" unfolding list_all_iff by blast
    then have "dropWhile p (rev (dropWhile p s)) \<noteq> []" using dropWhile_Nil_iff by blast
    with e show False by (simp add: strip_chars_def)
  qed
qed

lemma str_in_block: "str_in sub t \<Longrightarrow> s = us @ t @ vs \<Longrightarrow> str_in sub s"
proof -
  assume "str_in sub t" and s: "s = us @ t @ vs"
  then obtain a b where "t = a @ sub @ b" by (auto simp: str_in_iff)
  with s have "s = (us @ a) @ sub @ (b @ vs)" by simp
  then show ?thesis unfolding str_in_iff by blast
qed

lemma slugify_cases: "slugify s = [] \<or> well_formed_slug (slugify s)"
proof (cases "slugify s = []")
  case True
  then show ?thesis by simp
next
  case False
  define u where "u = re_sub_non_alnum (py_lower s)"
  define w where "w = strip_chars is_hyphen u"
  have sw: "slugify s = w" by (simp add: slugify_def w_def u_def)
  have ne: "w \<noteq> []" using False sw by simp
  obtain us vs where blk: "u = us @ w @ vs"
    unfolding w_def using strip_chars_block by blast
  have "list_all slug_alphabet u" unfolding u_def by (rule re_sub_alphabet)
  then have a: "list_all slug_alphabet w" unfolding blk by simp
  have "\<not> str_in ''--'' u" unfolding u_def by (rule re_sub_no_double)
  then have b: "\<not> str_in ''--'' w" using str_in_block [OF _ blk] by blast
  have "\<not> is_hyphen (hd w)" "\<not> is_hyphen (last w)"
    using strip_chars_ends [of is_hyphen u] ne unfolding w_def by blast+
  then have c: "hd w \<noteq> CHR ''-''" "last w \<noteq> CHR ''-''" by (simp_all add: is_hyphen_def)
  show ?thesis unfolding sw well_formed_slug_def using ne a b c by blast
qed

lemma hyphens_iff_no_slug_char:
  assumes "list_all slug_alphabet u"
  shows "list_all is_hyphen u \<longleftrightarrow> filter is_slug_char u = []"
  using assms by (induction u) (auto simp: slug_alphabet_def is_hyphen_def)

lemma filter_lower_Nil:
  "filter is_slug_char (py_lower s) = [] \<longleftrightarrow> \<not> (\<exists>c \<in> set s. is_slug_char (py_lower_char c))"
  unfolding py_lower_def by (induction s) auto

lemma slugify_nonempty_iff:
  "slugify s \<noteq> [] \<longleftrightarrow> (\<exists>c \<in> set s. is_slug_char (py_lower_char c))"
proof -
  define u where "u = re_sub_non_alnum (py_lower s)"
  have "slugify s = [] \<longleftrightarrow> list_all is_hyphen u"
    unfolding slugify_def u_def by (rule strip_chars_Nil)
  also have "\<dots> \<longleftrightarrow> filter is_slug_char u = []"
    by (rule hyphens_iff_no_slug_char) (simp add: u_def re_sub_alphabet)
  also have "\<dots> \<longleftrightarrow> filter is_slug_char (py_lower s) = []"
    unfolding u_def by (simp only: re_sub_slug_chars)
  also have "\<dots> \<longleftrightarrow> \<not> (\<exists>c \<in> set s. is_slug_char (py_lower_char c))"
    by (rule filter_lower_Nil)
  finally show ?thesis by blast
qed

text \<open>
  The identifiers built from a brand and an already cleaned name: each of \<open>brand_id\<close>
  and \<open>slug\<close> is empty or matches the regular expression, and matches exactly when its
  source string holds a character of \<open>[a-z0-9]\<close> after lower-casing.
\<close>

lemma make_ids_well_formed_or_empty:
  assumes "make_ids brand name_cleaned = (fragrance_id, brand_id, fragrance_slug)"
  shows "(brand_id = [] \<or> matches_slug_regex brand_id)
       \<and> (fragrance_slug = [] \<or> matches_slug_regex fragrance_slug)
       \<and> (matches_slug_regex brand_id \<longleftrightarrow> (\<exists>c \<in> set brand. is_slug_char (py_lower_char c)))
       \<and> (matches_slug_regex fragrance_slug
            \<longleftrightarrow> (\<exists>c \<in> set name_cleaned. is_slug_char (py_lower_char c)))
       \<and> fragrance_id = brand_id @ ''__'' @ fragrance_slug"
proof -
  have b: "brand_id = slugify brand" and n: "fragrance_slug = slugify name_cleaned"
    and i: "fragrance_id = brand_id @ ''__'' @ fragrance_slug"
    using assms by (auto simp: make_ids_def Let_def)
  have m: "matches_slug_regex (slugify s) \<longleftrightarrow> slugify s \<noteq> []" for s
    using slugify_cases [of s] by (auto simp: matches_slug_regex_iff well_formed_slug_def)
  have 1: "slugify brand = [] \<or> matches_slug_regex (slugify brand)"
    using m [of brand] by blast
  have 2: "slugify name_cleaned = [] \<or> matches_slug_regex (slugify name_cleaned)"
    using m [of name_cleaned] by blast
  have 3: "matches_slug_regex (slugify brand)
           \<longleftrightarrow> (\<exists>c \<in> set brand. is_slug_char (py_lower_char c))"
    using m [of brand] slugify_nonempty_iff [of brand] by (rule trans)
  have 4: "matches_slug_regex (slugify name_cleaned)
           \<longleftrightarrow> (\<exists>c \<in> set name_cleaned. is_slug_char (py_lower_char c))"
    using m [of name_cleaned] slugify_nonempty_iff [of name_cleaned] by (rule trans)
  from 1 2 3 4 i show ?thesis unfolding b n by (intro conjI)
qed

lemma upper_not_space: "c \<in> set upper_chars \<Longrightarrow> \<not> py_isspace c"
  by (auto simp: upper_chars_def py_isspace_def)

lemma space_not_slug_char: "py_isspace c \<Longrightarrow> \<not> is_slug_char (py_lower_char c)"
proof (cases "map_of (zip upper_chars lower_chars) c")
  case None
  assume "py_isspace c"
  with None show ?thesis by (auto simp: py_lower_char_def py_isspace_def is_slug_char_def Let_def)
next
  case (Some d)
  assume sp: "py_isspace c"
  from Some have "(c, d) \<in> set (zip upper_chars lower_chars)" by (rule map_of_SomeD)
  then have "c \<in> set upper_chars" by (rule set_zip_leftD)
  with sp show ?thesis using upper_not_space by blast
qed

lemma strip_chars_split:
  "s = takeWhile p s @ strip_chars p s @ rev (takeWhile p (rev (dropWhile p s)))"
proof -
  have "dropWhile p s = strip_chars p s @ rev (takeWhile p (rev (dropWhile p s)))"
    unfolding strip_chars_def by (rule rev_dropWhile_split)
  then have "takeWhile p s @ dropWhile p s
               = takeWhile p s @ strip_chars p s @ rev (takeWhile p (rev (dropWhile p s)))"
    by simp
  then show ?thesis by (simp only: takeWhile_dropWhile_id)
qed

lemma strip_chars_keeps:
  assumes "c \<in> set s" and "\<not> p c"
  shows "c \<in> set (strip_chars p s)"
proof -
  have "set s = set (takeWhile p s) \<union> set (strip_chars p s)
                \<union> set (takeWhile p (rev (dropWhile p s)))"
    by (subst strip_chars_split [of s p]) (simp only: set_append set_rev Un_assoc)
  moreover have "c \<notin> set (takeWhile p s)" using assms(2) set_takeWhileD by metis
  moreover have "c \<notin> set (takeWhile p (rev (dropWhile p s)))"
    using assms(2) set_takeWhileD by metis
  ultimately show ?thesis using assms(1) by blast
qed

lemma strip_chars_subset: "set (strip_chars p s) \<subseteq> set s"
proof -
  obtain us vs where "s = us @ strip_chars p s @ vs" using strip_chars_block by blast
  then have "set s = set us \<union> set (strip_chars p s) \<union> set vs" by (metis set_append Un_assoc)
  then show ?thesis by blast
qed

lemma slug_char_in_stripped:
  "(\<exists>c \<in> set (py_strip s). is_slug_char (py_lower_char c))
     \<longleftrightarrow> (\<exists>c \<in> set s. is_slug_char (py_lower_char c))"
proof
  assume "\<exists>c \<in> set (py_strip s). is_slug_char (py_lower_char c)"
  then show "\<exists>c \<in> set s. is_slug_char (py_lower_char c)"
    using strip_chars_subset [of py_isspace s] unfolding py_strip_def by blast
next
  assume "\<exists>c \<in> set s. is_slug_char (py_lower_char c)"
  then obtain c where c: "c \<in> set s" "is_slug_char (py_lower_char c)" by blast
  then have "\<not> py_isspace c" using space_not_slug_char by blast
  with c(1) have "c \<in> set (py_strip s)" unfolding py_strip_def by (rule strip_chars_keeps)
  with c(2) show "\<exists>c \<in> set (py_strip s). is_slug_char (py_lower_char c)" by blast
qed

text \<open>
  C8 (counterexample). A perfume cell that is just the brand loses its whole name to the
  brand-prefix removal: the \<open>slug\<close> is empty and the \<open>id\<close> is \<open>dior__\<close>. A brand and a
  name without any character of \<open>[a-z0-9]\<close> give an empty \<open>brand_id\<close> and an empty
  \<open>slug\<close>. The regular expression \<open>^[a-z0-9]+(-[a-z0-9]+)*$\<close> does not match the empty
  string.
\<close>

theorem brand_equals_name_counterexample:
  "clean_fragrance_ids ''Dior'' ''Dior'' = (''dior__'', ''dior'', [])
   \<and> clean_fragrance_ids ''!'' ''&'' = (''__'', [], [])
   \<and> \<not> matches_slug_regex []"
  by (simp add: clean_fragrance_ids_def clean_name_def remove_brand_prefix_def after_brand_def
      make_ids_def slugify_def strip_chars_def py_strip_def is_hyphen_def py_lower_def
      py_lower_char_def upper_chars_def lower_chars_def is_slug_char_def py_isspace_def
      matches_slug_regex_def Let_def)

text \<open>
  C8 (amended). For every brand cell and perfume cell, the generated \<open>brand_id\<close> and
  \<open>slug\<close> are each either empty or match \<open>^[a-z0-9]+(-[a-z0-9]+)*$\<close> (only
  \<open>[a-z0-9-]\<close>, no leading, trailing or doubled hyphen). The \<open>brand_id\<close> matches exactly
  when the lower-cased brand holds a character of \<open>[a-z0-9]\<close>; the \<open>slug\<close> matches
  exactly when the cleaned name (the name left after the leading brand has been removed
  and white space collapsed) holds such a character after lower-casing. The \<open>id\<close> is
  \<open>brand_id\<close>, two underscores and \<open>slug\<close>.
\<close>

theorem clean_ids_well_formed_or_empty:
  assumes "clean_fragrance_ids perfume_cell brand_cell = (fragrance_id, brand_id, fragrance_slug)"
  shows "(brand_id = [] \<or> matches_slug_regex brand_id)
       \<and> (fragrance_slug = [] \<or> matches_slug_regex fragrance_slug)
       \<and> (matches_slug_regex brand_id
            \<longleftrightarrow> (\<exists>c \<in> set brand_cell. is_slug_char (py_lower_char c)))
       \<and> (matches_slug_regex fragrance_slug
            \<longleftrightarrow> (\<exists>c \<in> set (clean_name (py_strip brand_cell) (py_strip perfume_cell)).
                   is_slug_char (py_lower_char c)))
       \<and> fragrance_id = brand_id @ ''__'' @ fragrance_slug"
proof -
  from assms have m: "make_ids (py_strip brand_cell)
                        (clean_name (py_strip brand_cell) (py_strip perfume_cell))
                      = (fragrance_id, brand_id, fragrance_slug)"
    by (simp add: clean_fragrance_ids_def Let_def)
  note c = make_ids_well_formed_or_empty [OF m]
  from c have 1: "brand_id = [] \<or> matches_slug_regex brand_id" by (rule conjunct1)
  from c have 2: "fragrance_slug = [] \<or> matches_slug_regex fragrance_slug"
    by (elim conjE)
  from c have 3: "matches_slug_regex brand_id
            \<longleftrightarrow> (\<exists>c \<in> set (py_strip brand_cell). is_slug_char (py_lower_char c))"
    by (elim conjE)
  from c have 4: "matches_slug_regex fragrance_slug
            \<longleftrightarrow> (\<exists>c \<in> set (clean_name (py_strip brand_cell) (py_strip perfume_cell)).
                   is_slug_char (py_lower_char c))"
    by (elim conjE)
  from c have 5: "fragrance_id = brand_id @ ''__'' @ fragrance_slug" by (elim conjE)
  have b3: "matches_slug_regex brand_id
            \<longleftrightarrow> (\<exists>c \<in> set brand_cell. is_slug_char (py_lower_char c))"
    using 3 slug_char_in_stripped [of brand_cell] by (rule trans)
  from 1 2 b3 4 5 show ?thesis by (intro conjI)
qed

theorem clean_ids_well_formed_or_empty_witness:
  "clean_fragrance_ids ''Dior - Sauvage  Elixir'' '' dior'' = (''dior__sauvage-elixir'', ''dior'', ''sauvage-elixir'')
   \<and> matches_slug_regex ''dior'' \<and> matches_slug_regex ''sauvage-elixir''
   \<and> clean_name ''dior'' ''Dior - Sauvage  Elixir'' = ''Sauvage Elixir''"
proof -
  have h: "clean_fragrance_ids ''Dior - Sauvage  Elixir'' '' dior''
             = (''dior__sauvage-elixir'', ''dior'', ''sauvage-elixir'')"
    by (simp add: clean_fragrance_ids_def clean_name_def remove_brand_prefix_def after_brand_def
        make_ids_def slugify_def strip_chars_def py_strip_def is_hyphen_def py_lower_def
        py_lower_char_def upper_chars_def lower_chars_def is_slug_char_def py_isspace_def Let_def)
  have n: "clean_name ''dior'' ''Dior - Sauvage  Elixir'' = ''Sauvage Elixir''"
    by (simp add: clean_name_def remove_brand_prefix_def after_brand_def strip_chars_def
        py_strip_def py_lower_def py_lower_char_def upper_chars_def lower_chars_def
        py_isspace_def Let_def)
  have e: "\<exists>c \<in> set '' dior''. is_slug_char (py_lower_char c)"
    by (rule bexI [of _ "CHR ''d''"])
       (simp_all add: py_lower_char_def upper_chars_def lower_chars_def is_slug_char_def)
  have s: "py_strip '' dior'' = ''dior''" "py_strip ''Dior - Sauvage  Elixir'' = ''Dior - Sauvage  Elixir''"
    by (simp_all add: py_strip_def strip_chars_def py_isspace_def)
  have e': "\<exists>c \<in> set (clean_name (py_strip '' dior'') (py_strip ''Dior - Sauvage  Elixir'')).
               is_slug_char (py_lower_char c)"
    unfolding s n
    by (rule bexI [of _ "CHR ''a''"])
       (simp_all add: py_lower_char_def upper_chars_def lower_chars_def is_slug_char_def)
  note c = clean_ids_well_formed_or_empty [OF h]
  from c have "matches_slug_regex ''dior''" by (simp only: e simp_thms)
  moreover from c have "matches_slug_regex ''sauvage-elixir''" by (simp only: e' simp_thms)
  ultimately show ?thesis using h n by (simp only: simp_thms)
qed

section \<open>The schema validator accumulates its errors\<close>

lemma foldl_required:
  "foldl (\<lambda>errors field. if P field then errors @ [MissingRequired field] else errors) acc names
     = acc @ map MissingRequired (filter P names)"
  by (induction names arbitrary: acc) auto

lemma check_rating_typed:
  assumes "numeric_or_absent (fragrance ''rating_value'')"
  shows "\<exists>new. check_rating fragrance errors = Inr (errors @ new)"
proof (cases "fragrance ''rating_value''")
  case None
  then show ?thesis by (simp add: check_rating_def)
next
  case (Some v)
  with assms show ?thesis
    by (cases v) (auto simp: check_rating_def)
qed

lemma check_price_typed:
  assumes "numeric_or_absent (fragrance ''sample_price_usd'')"
  shows "\<exists>new. check_price fragrance errors = Inr (errors @ new)"
proof (cases "fragrance ''sample_price_usd''")
  case None
  then show ?thesis by (simp add: check_price_def)
next
  case (Some v)
  with assms show ?thesis
    by (cases v) (auto simp: check_price_def)
qed

lemma check_id_typed:
  assumes "case (fragrance ''id'', fragrance ''brand_id'') of
             (Some i, Some b) \<Rightarrow> is_str i \<and> is_str b | _ \<Rightarrow> True"
  shows "\<exists>new. check_id_format fragrance errors = Inr (errors @ new)"
proof (cases "fragrance ''id''")
  case None
  then show ?thesis by (simp add: check_id_format_def)
next
  case i: (Some i)
  show ?thesis
  proof (cases "fragrance ''brand_id''")
    case None
    with i show ?thesis by (simp add: check_id_format_def)
  next
    case b: (Some b)
    from assms i b obtain si sb where "i = VStr si" "b = VStr sb"
      by (cases i; cases b) auto
    with i b show ?thesis by (simp add: check_id_format_def)
  qed
qed

lemma validate_unfold:
  "validate_fragrance_data fragrance =
     (case check_rating fragrance (early_errors fragrance) of
           Inl e \<Rightarrow> Inl e
         | Inr errors \<Rightarrow>
             (case check_price fragrance errors of
                Inl e \<Rightarrow> Inl e
              | Inr errors \<Rightarrow>
                  (case check_id_format fragrance errors of
                     Inl e \<Rightarrow> Inl e
                   | Inr errors \<Rightarrow> Inr (errors = [], errors))))"
proof -
  have "(let errors = [];
          errors = foldl (\<lambda>errors field.
                     if missing_field fragrance field then errors @ [MissingRequired field]
                     else errors) errors required_fields;
          errors = (if fragrance ''main_accords'' = None \<and> fragrance ''accords'' = None
                    then errors @ [MissingAccords] else errors)
         in (case fragrance ''gender'' of
                      None \<Rightarrow> errors
                    | Some g \<Rightarrow> if g \<notin> set valid_genders then errors @ [InvalidGender g]
                               else errors)) = early_errors fragrance"
    by (simp add: early_errors_def foldl_required no_accords_def Let_def split: option.split)
  then show ?thesis
    unfolding validate_fragrance_data_def Let_def by simp
qed

lemma validate_typed:
  assumes "well_typed fragrance"
  shows "\<exists>errors. validate_fragrance_data fragrance = Inr (errors = [], errors)
           \<and> prefix (early_errors fragrance) errors"
proof -
  from assms have r: "numeric_or_absent (fragrance ''rating_value'')"
    and p: "numeric_or_absent (fragrance ''sample_price_usd'')"
    and i: "case (fragrance ''id'', fragrance ''brand_id'') of
             (Some i, Some b) \<Rightarrow> is_str i \<and> is_str b | _ \<Rightarrow> True"
    by (simp_all add: well_typed_def)
  let ?e = "early_errors fragrance"
  obtain n1 where 1: "check_rating fragrance ?e = Inr (?e @ n1)"
    using check_rating_typed [of fragrance ?e, OF r] by blast
  obtain n2 where 2: "check_price fragrance (?e @ n1) = Inr (?e @ n1 @ n2)"
    using check_price_typed [of fragrance "?e @ n1", OF p] by auto
  obtain n3 where 3: "check_id_format fragrance (?e @ n1 @ n2) = Inr (?e @ n1 @ n2 @ n3)"
    using check_id_typed [of fragrance "?e @ n1 @ n2", OF i] by auto
  let ?errors = "?e @ n1 @ n2 @ n3"
  have v: "validate_fragrance_data fragrance = Inr (?errors = [], ?errors)"
    by (simp add: validate_unfold 1 2 3)
  moreover have "prefix (early_errors fragrance) ?errors" by simp
  ultimately show ?thesis by blast
qed

lemma check_rating_extends:
  "check_rating fragrance errors = Inr errors' \<Longrightarrow> prefix errors errors'"
  by (auto simp: check_rating_def split: option.splits pyval.splits sum.splits if_splits)

lemma check_price_extends:
  "check_price fragrance errors = Inr errors' \<Longrightarrow> prefix errors errors'"
  by (auto simp: check_price_def split: option.splits pyval.splits sum.splits if_splits)

lemma check_id_extends:
  "check_id_format fragrance errors = Inr errors' \<Longrightarrow> prefix errors errors'"
  by (auto simp: check_id_format_def split: option.splits pyval.splits if_splits)

lemma check_id_Nil:
  assumes "check_id_format fragrance errors = Inr []"
    and "fragrance ''id'' = Some i" and "fragrance ''brand_id'' = Some b"
  shows "\<exists>id_str brand_str. i = VStr id_str \<and> b = VStr brand_str
           \<and> prefix (brand_str @ ''__'') id_str"
  using assms by (auto simp: check_id_format_def split: pyval.splits if_splits)

lemma validate_returns:
  assumes "validate_fragrance_data fragrance = Inr (ok, errors)"
  shows "ok = (errors = [])" and "prefix (early_errors fragrance) errors"
    and "\<exists>before. check_id_format fragrance before = Inr errors
           \<and> prefix (early_errors fragrance) before"
proof -
  from assms obtain e1 e2 where 1: "check_rating fragrance (early_errors fragrance) = Inr e1"
    and 2: "check_price fragrance e1 = Inr e2"
    and 3: "check_id_format fragrance e2 = Inr errors" and ok: "ok = (errors = [])"
    unfolding validate_unfold by (auto split: sum.splits)
  show "ok = (errors = [])" by (rule ok)
  have p2: "prefix (early_errors fragrance) e2"
    using check_rating_extends [OF 1] check_price_extends [OF 2] by (rule prefix_order.trans)
  then show "prefix (early_errors fragrance) errors"
    using check_id_extends [OF 3] by (rule prefix_order.trans)
  from 3 p2 show "\<exists>before. check_id_format fragrance before = Inr errors
           \<and> prefix (early_errors fragrance) before" by blast
qed

lemma early_errors_Nil_required:
  assumes "early_errors fragrance = []" and "field \<in> set required_fields"
  shows "\<exists>v. fragrance field = Some v \<and> truthy v"
proof -
  from assms(1) have "filter (missing_field fragrance) required_fields = []"
    by (simp add: early_errors_def)
  with assms(2) have "\<not> missing_field fragrance field"
    by (simp add: filter_empty_conv)
  then show ?thesis by (auto simp: missing_field_def split: option.splits)
qed

lemma validate_raises_iff:
  "(\<exists>e. validate_fragrance_data fragrance = Inl e) \<longleftrightarrow> \<not> well_typed fragrance"
proof
  assume "\<exists>e. validate_fragrance_data fragrance = Inl e"
  then show "\<not> well_typed fragrance" using validate_typed [of fragrance] by auto
next
  assume nw: "\<not> well_typed fragrance"
  show "\<exists>e. validate_fragrance_data fragrance = Inl e"
  proof (rule ccontr)
    assume "\<not> (\<exists>e. validate_fragrance_data fragrance = Inl e)"
    then obtain ok errors where "validate_fragrance_data fragrance = Inr (ok, errors)"
      by (cases "validate_fragrance_data fragrance") auto
    then obtain e1 e2 where 1: "check_rating fragrance (early_errors fragrance) = Inr e1"
      and 2: "check_price fragrance e1 = Inr e2"
      and 3: "check_id_format fragrance e2 = Inr errors"
      unfolding validate_unfold by (auto split: sum.splits)
    from 1 have "numeric_or_absent (fragrance ''rating_value'')"
      by (auto simp: check_rating_def split: option.splits pyval.splits sum.splits)
    moreover from 2 have "numeric_or_absent (fragrance ''sample_price_usd'')"
      by (auto simp: check_price_def split: option.splits pyval.splits sum.splits)
    moreover from 3 have "case (fragrance ''id'', fragrance ''brand_id'') of
             (Some i, Some b) \<Rightarrow> is_str i \<and> is_str b | _ \<Rightarrow> True"
      by (auto simp: check_id_format_def split: option.splits pyval.splits)
    ultimately show False using nw by (simp add: well_typed_def)
  qed
qed

text \<open>
  C6 (counterexample). The record of the repository's own validation test is accepted
  with an empty error list, and its \<open>id\<close> is not \<open>brand_id\<close>, two underscores and
  \<open>slug\<close>: the validator compares the prefix only.
\<close>

theorem validator_prefix_only_counterexample:
  "validate_fragrance_data repo_valid_fragrance = Inr (True, [])
   \<and> repo_valid_fragrance ''id'' = Some (VStr ''test-validation-brand__valid_fragrance'')
   \<and> repo_valid_fragrance ''brand_id'' = Some (VStr ''test-validation-brand'')
   \<and> repo_valid_fragrance ''slug'' = Some (VStr ''valid-test-fragrance'')
   \<and> ''test-validation-brand__valid_fragrance''
       \<noteq> ''test-validation-brand'' @ ''__'' @ ''valid-test-fragrance''"
  by (simp add: validate_fragrance_data_def repo_valid_fragrance_def required_fields_def
      missing_field_def valid_genders_def check_rating_def check_price_def check_id_format_def)

text \<open>
  C6 (amended). For every record the validator accepts (empty error list), \<open>id\<close> and
  \<open>brand_id\<close> are strings, \<open>brand_id\<close> is non-empty and \<open>id\<close> starts with \<open>brand_id\<close>
  followed by two underscores; the \<open>slug\<close> is not compared with the \<open>id\<close>.
\<close>

theorem validator_accepts_id_prefix:
  assumes "validate_fragrance_data fragrance = Inr (True, errors)"
  shows "\<exists>id_str brand_str.
           fragrance ''id'' = Some (VStr id_str) \<and> fragrance ''brand_id'' = Some (VStr brand_str)
           \<and> brand_str \<noteq> [] \<and> prefix (brand_str @ ''__'') id_str"
proof -
  from validate_returns [OF assms] obtain before
    where e: "errors = []" and p: "prefix (early_errors fragrance) errors"
      and c: "check_id_format fragrance before = Inr errors" by auto
  from e p have n: "early_errors fragrance = []" by simp
  obtain i where i: "fragrance ''id'' = Some i"
    using early_errors_Nil_required [OF n, of "''id''"] by (auto simp: required_fields_def)
  obtain b where b: "fragrance ''brand_id'' = Some b" and tb: "truthy b"
    using early_errors_Nil_required [OF n, of "''brand_id''"] by (auto simp: required_fields_def)
  from c e have "check_id_format fragrance before = Inr []" by simp
  from check_id_Nil [OF this i b] obtain id_str brand_str
    where "i = VStr id_str" "b = VStr brand_str" "prefix (brand_str @ ''__'') id_str" by blast
  with i b tb show ?thesis by auto
qed

theorem validator_accepts_id_prefix_witness:
  "validate_fragrance_data repo_valid_fragrance = Inr (True, [])
   \<and> (\<exists>id_str brand_str.
           repo_valid_fragrance ''id'' = Some (VStr id_str)
           \<and> repo_valid_fragrance ''brand_id'' = Some (VStr brand_str)
           \<and> brand_str \<noteq> [] \<and> prefix (brand_str @ ''__'') id_str)"
proof -
  have h: "validate_fragrance_data repo_valid_fragrance = Inr (True, [])"
    by (simp add: validate_fragrance_data_def repo_valid_fragrance_def required_fields_def
        missing_field_def valid_genders_def check_rating_def check_price_def check_id_format_def)
  from h validator_accepts_id_prefix [OF h] show ?thesis by (rule conjI)
qed

lemma missing_field_iff: "missing_field fragrance field \<longleftrightarrow> empty_value (fragrance field)"
proof (cases "fragrance field")
  case None
  then show ?thesis by (simp add: missing_field_def empty_value_def)
next
  case (Some v)
  then show ?thesis by (cases v) (auto simp: missing_field_def empty_value_def)
qed

lemma early_errors_expected:
  "early_errors fragrance =
     required_part fragrance ''id'' @ required_part fragrance ''brand_id''
     @ required_part fragrance ''name'' @ required_part fragrance ''slug''
     @ required_part fragrance ''gender''
     @ accords_part fragrance @ gender_part fragrance"
proof -
  have r: "map MissingRequired (filter (missing_field fragrance) required_fields)
        = required_part fragrance ''id'' @ required_part fragrance ''brand_id''
          @ required_part fragrance ''name'' @ required_part fragrance ''slug''
          @ required_part fragrance ''gender''"
    by (simp add: required_fields_def required_part_def missing_field_iff)
  have g: "(case fragrance ''gender'' of None \<Rightarrow> []
        | Some g \<Rightarrow> if g \<notin> set valid_genders then [InvalidGender g] else [])
        = gender_part fragrance"
    by (auto simp: gender_part_def valid_genders_def split: option.split)
  show ?thesis
    unfolding early_errors_def r g by (simp add: accords_part_def no_accords_def)
qed

lemma check_rating_result:
  "check_rating fragrance errors = Inr errors' \<Longrightarrow> errors' = errors @ rating_part fragrance"
  by (auto simp: check_rating_def rating_part_def split: option.splits pyval.splits sum.splits if_splits)

lemma check_price_result:
  "check_price fragrance errors = Inr errors' \<Longrightarrow> errors' = errors @ price_part fragrance"
  by (auto simp: check_price_def price_part_def split: option.splits pyval.splits sum.splits if_splits)

lemma check_id_result:
  "check_id_format fragrance errors = Inr errors' \<Longrightarrow> errors' = errors @ id_part fragrance"
  by (auto simp: check_id_format_def id_part_def split: option.splits pyval.splits if_splits)

lemma validate_expected:
  assumes "validate_fragrance_data fragrance = Inr (ok, errors)"
  shows "ok = (errors = [])" and "errors = expected_errors fragrance"
proof -
  from assms obtain e1 e2 where 1: "check_rating fragrance (early_errors fragrance) = Inr e1"
    and 2: "check_price fragrance e1 = Inr e2"
    and 3: "check_id_format fragrance e2 = Inr errors" and ok: "ok = (errors = [])"
    unfolding validate_unfold by (auto split: sum.splits)
  show "ok = (errors = [])" by (rule ok)
  from check_rating_result [OF 1] check_price_result [OF 2] check_id_result [OF 3]
  show "errors = expected_errors fragrance"
    by (simp add: expected_errors_def early_errors_expected)
qed

lemma length_expected_errors:
  "length (expected_errors fragrance) = count_true (failed_checks fragrance)"
proof -
  have g: "length (gender_part fragrance)
       = (if (case fragrance ''gender'' of
                None \<Rightarrow> False
              | Some g \<Rightarrow> g \<noteq> VStr ''men'' \<and> g \<noteq> VStr ''women'' \<and> g \<noteq> VStr ''unisex'')
          then 1 else 0)"
    by (auto simp: gender_part_def split: option.splits)
  have r: "length (rating_part fragrance)
       = (if (case fragrance ''rating_value'' of Some (VNum x) \<Rightarrow> x < 0 \<or> 5 < x | _ \<Rightarrow> False)
          then 1 else 0)"
    by (auto simp: rating_part_def split: option.splits pyval.splits)
  have p: "length (price_part fragrance)
       = (if (case fragrance ''sample_price_usd'' of
                Some (VNum x) \<Rightarrow> x < 0 \<or> 100 < x | _ \<Rightarrow> False)
          then 1 else 0)"
    by (auto simp: price_part_def split: option.splits pyval.splits)
  have i: "length (id_part fragrance)
       = (if (case (fragrance ''id'', fragrance ''brand_id'') of
                (Some (VStr i), Some (VStr b)) \<Rightarrow> \<not> prefix (b @ ''__'') i
              | _ \<Rightarrow> False)
          then 1 else 0)"
    by (auto simp: id_part_def split: option.splits pyval.splits)
  have q: "length (required_part fragrance field)
       = (if empty_value (fragrance field) then 1 else 0)" for field
    by (simp add: required_part_def)
  have a: "length (accords_part fragrance)
       = (if fragrance ''main_accords'' = None \<and> fragrance ''accords'' = None then 1 else 0)"
    by (simp add: accords_part_def)
  have ct: "count_true [b1, b2, b3, b4, b5, b6, b7, b8, b9, b10]
       = (if b1 then 1 else 0) + ((if b2 then 1 else 0) + ((if b3 then 1 else 0)
         + ((if b4 then 1 else 0) + ((if b5 then 1 else 0) + ((if b6 then 1 else 0)
         + ((if b7 then 1 else 0) + ((if b8 then 1 else 0) + ((if b9 then 1 else 0)
         + (if b10 then 1 else 0)))))))))"
    for b1 b2 b3 b4 b5 b6 b7 b8 b9 b10
    by (simp add: count_true_def)
  show ?thesis
    unfolding expected_errors_def failed_checks_def length_append g r p i q a ct
    by (rule refl)
qed

text \<open>
  C7 (counterexample). The record violates three constraints as the specification words
  them: \<open>gender\<close> is missing, \<open>rating_value\<close> is 7 and \<open>id\<close> is not \<open>brand_id\<close>, two
  underscores and \<open>slug\<close>. The validator returns two errors: its \<open>id\<close> check compares
  the prefix only.
\<close>

theorem validator_slug_mismatch_counterexample:
  "validate_fragrance_data wrong_slug_record
     = Inr (False, [MissingRequired ''gender'', InvalidRating (VNum 7)])
   \<and> wrong_slug_record ''gender'' = None
   \<and> wrong_slug_record ''rating_value'' = Some (VNum 7)
   \<and> wrong_slug_record ''id'' = Some (VStr ''dior__wrong-slug'')
   \<and> wrong_slug_record ''brand_id'' = Some (VStr ''dior'')
   \<and> wrong_slug_record ''slug'' = Some (VStr ''sauvage'')
   \<and> ''dior__wrong-slug'' \<noteq> ''dior'' @ ''__'' @ ''sauvage''
   \<and> length [MissingRequired ''gender'', InvalidRating (VNum 7)] < 3"
  by (simp add: validate_fragrance_data_def wrong_slug_record_def required_fields_def
      missing_field_def valid_genders_def check_rating_def check_price_def check_id_format_def)

text \<open>
  C7 (amended). The validator accumulates every failed check instead of stopping at
  the first. It returns on every record whose rating and price are numbers, booleans
  or \<open>null\<close> and whose \<open>id\<close> and \<open>brand_id\<close>, when both keys are present, are strings;
  whenever it returns, the flag says whether the list is empty, and the list is exactly
  \<open>expected_errors\<close>: one entry for each failed check (a required field absent or empty,
  no accords key, a gender outside the three values, a rating outside \<open>[0, 5]\<close>, a
  price outside \<open>[0, 100]\<close>, an \<open>id\<close> that does not start with \<open>brand_id\<close> and two
  underscores), so as many entries as failed checks. In particular a record without
  \<open>gender\<close>, with \<open>rating_value = 7.0\<close> and with an \<open>id\<close> that does not start with its
  \<open>brand_id\<close> and two underscores gets these three errors, hence at least three.
\<close>

theorem validator_reports_every_failed_check:
  "(well_typed fragrance
      \<longrightarrow> (\<exists>errors. validate_fragrance_data fragrance = Inr (errors = [], errors)))
   \<and> (validate_fragrance_data fragrance = Inr (ok, errors)
      \<longrightarrow> ok = (errors = [])
          \<and> errors = expected_errors fragrance
          \<and> length errors = count_true (failed_checks fragrance)
          \<and> (fragrance ''gender'' = None \<and> fragrance ''rating_value'' = Some (VNum 7)
               \<and> fragrance ''id'' = Some (VStr i) \<and> fragrance ''brand_id'' = Some (VStr b)
               \<and> \<not> prefix (b @ ''__'') i
             \<longrightarrow> MissingRequired ''gender'' \<in> set errors
                 \<and> InvalidRating (VNum 7) \<in> set errors
                 \<and> IdFormatMismatch i b \<in> set errors
                 \<and> 3 \<le> length errors))"
proof (intro conjI impI)
  assume "well_typed fragrance"
  then show "\<exists>errors. validate_fragrance_data fragrance = Inr (errors = [], errors)"
    using validate_typed by blast
next
  assume v: "validate_fragrance_data fragrance = Inr (ok, errors)"
  show "ok = (errors = [])" using validate_expected(1) [OF v] .
  show e: "errors = expected_errors fragrance" using validate_expected(2) [OF v] .
  show "length errors = count_true (failed_checks fragrance)"
    unfolding e by (rule length_expected_errors)
next
  assume v: "validate_fragrance_data fragrance = Inr (ok, errors)"
    and h: "fragrance ''gender'' = None \<and> fragrance ''rating_value'' = Some (VNum 7)
               \<and> fragrance ''id'' = Some (VStr i) \<and> fragrance ''brand_id'' = Some (VStr b)
               \<and> \<not> prefix (b @ ''__'') i"
  have e: "errors = expected_errors fragrance" using validate_expected(2) [OF v] .
  from h have g: "required_part fragrance ''gender'' = [MissingRequired ''gender'']"
    by (simp add: required_part_def empty_value_def)
  from h have r: "rating_part fragrance = [InvalidRating (VNum 7)]"
    by (simp add: rating_part_def)
  from h have d: "id_part fragrance = [IdFormatMismatch i b]"
    by (simp add: id_part_def)
  show "MissingRequired ''gender'' \<in> set errors" unfolding e expected_errors_def g by simp
  show "InvalidRating (VNum 7) \<in> set errors" unfolding e expected_errors_def r by simp
  show "IdFormatMismatch i b \<in> set errors" unfolding e expected_errors_def d by simp
  show "3 \<le> length errors" unfolding e expected_errors_def g r d by simp
qed

theorem validator_reports_every_failed_check_witness:
  "well_typed three_violations
   \<and> validate_fragrance_data three_violations
       = Inr (False, [MissingRequired ''gender'', InvalidRating (VNum 7),
                      IdFormatMismatch ''sauvage'' ''dior''])
   \<and> expected_errors three_violations
       = [MissingRequired ''gender'', InvalidRating (VNum 7), IdFormatMismatch ''sauvage'' ''dior'']
   \<and> count_true (failed_checks three_violations) = 3"
proof -
  have w: "well_typed three_violations"
    by (simp add: well_typed_def three_violations_def)
  have e: "validate_fragrance_data three_violations
       = Inr (False, [MissingRequired ''gender'', InvalidRating (VNum 7),
                      IdFormatMismatch ''sauvage'' ''dior''])"
    by (simp add: validate_fragrance_data_def three_violations_def required_fields_def
        missing_field_def valid_genders_def check_rating_def check_price_def check_id_format_def)
  note inst = validator_reports_every_failed_check
    [of three_violations False "[MissingRequired ''gender'', InvalidRating (VNum 7),
                      IdFormatMismatch ''sauvage'' ''dior'']" "''sauvage''" "''dior''"]
  from inst e have x: "[MissingRequired ''gender'', InvalidRating (VNum 7),
                      IdFormatMismatch ''sauvage'' ''dior''] = expected_errors three_violations"
    by blast
  from inst e have "length [MissingRequired ''gender'', InvalidRating (VNum 7),
                      IdFormatMismatch ''sauvage'' ''dior''] = count_true (failed_checks three_violations)"
    by blast
  then have c: "count_true (failed_checks three_violations) = 3" by simp
  from w e x c show ?thesis by simp
qed

text \<open>
  C10. A record with neither the key \<open>accords\<close> nor the key \<open>main_accords\<close> is never
  accepted: whenever the validator returns, it returns \<open>False\<close> with the accords error
  in the list, and it does return on every well-typed record.
\<close>

theorem validator_requires_accords_key:
  assumes "fragrance ''main_accords'' = None" and "fragrance ''accords'' = None"
  shows "(\<forall>ok errors. validate_fragrance_data fragrance = Inr (ok, errors)
            \<longrightarrow> \<not> ok \<and> MissingAccords \<in> set errors)
       \<and> (well_typed fragrance
            \<longrightarrow> (\<exists>errors. validate_fragrance_data fragrance = Inr (False, errors)
                   \<and> MissingAccords \<in> set errors))"
proof -
  have m: "MissingAccords \<in> set (early_errors fragrance)"
    using assms by (simp add: early_errors_def no_accords_def)
  have 1: "\<not> ok \<and> MissingAccords \<in> set errors"
    if "validate_fragrance_data fragrance = Inr (ok, errors)" for ok errors
  proof -
    from validate_returns [OF that] have ok: "ok = (errors = [])"
      and p: "prefix (early_errors fragrance) errors" by auto
    from p m have "MissingAccords \<in> set errors" using set_mono_prefix by blast
    with ok show ?thesis by auto
  qed
  have 2: "\<exists>errors. validate_fragrance_data fragrance = Inr (False, errors)
                   \<and> MissingAccords \<in> set errors" if "well_typed fragrance"
  proof -
    from validate_typed [OF that] obtain errors
      where v: "validate_fragrance_data fragrance = Inr (errors = [], errors)" by blast
    from 1 [OF v] v show ?thesis by auto
  qed
  from 1 2 show ?thesis by blast
qed

theorem validator_requires_accords_key_witness:
  "without_accords ''main_accords'' = None \<and> without_accords ''accords'' = None
   \<and> well_typed without_accords
   \<and> validate_fragrance_data without_accords = Inr (False, [MissingAccords])"
proof -
  have a: "without_accords ''main_accords'' = None" "without_accords ''accords'' = None"
    by (simp_all add: without_accords_def)
  have w: "well_typed without_accords" by (simp add: well_typed_def without_accords_def)
  have e: "validate_fragrance_data without_accords = Inr (False, [MissingAccords])"
    by (simp add: validate_fragrance_data_def without_accords_def required_fields_def
        missing_field_def valid_genders_def check_rating_def check_price_def check_id_format_def)
  from validator_requires_accords_key [OF a] e have "MissingAccords \<in> set [MissingAccords]"
    by blast
  with a w e show ?thesis by simp
qed

section \<open>Batch upsert: partition and batch-level failure\<close>

lemma ceil_div_step:
  fixes bs n :: nat
  assumes "0 < bs" and "0 < n"
  shows "(n + bs - 1) div bs = Suc ((n - bs + bs - 1) div bs)"
proof (cases "bs \<le> n")
  case True
  define m where "m = n - bs + bs - 1"
  have "n + bs - 1 = m + bs" using True assms by (simp add: m_def)
  moreover have "(m + bs) div bs = Suc (m div bs)" using assms(1) by simp
  ultimately show ?thesis by (simp add: m_def)
next
  case False
  then have z: "n - bs = 0" by simp
  have b: "(bs - 1) div bs = 0" using assms(1) by simp
  obtain k where k: "n = Suc k" using assms(2) by (cases n) auto
  have "n + bs - 1 = k + bs" using k by simp
  moreover have "k < bs" using False k by simp
  ultimately have "(n + bs - 1) div bs = 1" using assms(1) by simp
  with z b show ?thesis by simp
qed

lemma upsert_batches_submits:
  assumes "0 < bs"
  shows "\<exists>new. upsert_batches post bs records i inserted st
            = (inserted + fst (submit_all post st new), snd (submit_all post st new))
          \<and> concat new = drop i records
          \<and> (\<forall>b \<in> set new. b \<noteq> [] \<and> length b \<le> bs)
          \<and> length new = (length records - i + bs - 1) div bs"
  using assms
proof (induction post bs records i inserted st rule: upsert_batches.induct)
  case (1 post bs records i inserted st)
  show ?case
  proof (cases "length records \<le> i")
    case True
    with 1(2) have "(length records - i + bs - 1) div bs = 0" by simp
    with True 1(2) show ?thesis
      by (subst upsert_batches.simps) simp
  next
    case False
    define batch where "batch = take bs (drop i records)"
    obtain response st' where post: "(response, st') = post st batch"
      by (cases "post st batch") auto
    define inserted' where
      "inserted' = (if succeeded response then inserted + length batch else inserted)"
    have step: "upsert_batches post bs records i inserted st
                 = upsert_batches post bs records (i + bs) inserted' st'"
      using False 1(2) post [symmetric]
      by (subst upsert_batches.simps) (simp add: batch_def inserted'_def Let_def)
    have g: "\<not> (bs = 0 \<or> length records \<le> i)" using False 1(2) by simp
    from 1(1) [OF g batch_def refl post inserted'_def 1(2)]
    obtain new where r: "upsert_batches post bs records (i + bs) inserted' st'
            = (inserted' + fst (submit_all post st' new), snd (submit_all post st' new))"
      and c: "concat new = drop (i + bs) records"
      and s: "\<forall>b \<in> set new. b \<noteq> [] \<and> length b \<le> bs"
      and l: "length new = (length records - (i + bs) + bs - 1) div bs"
      by auto
    have ne: "batch \<noteq> []" using False 1(2) by (simp add: batch_def)
    have lb: "length batch \<le> bs" by (simp add: batch_def)
    have "drop i records = batch @ drop (i + bs) records"
      unfolding batch_def by (metis add.commute append_take_drop_id drop_drop)
    with c have c': "concat (batch # new) = drop i records" by simp
    have a: "inserted' + fst (submit_all post st' new)
               = inserted + fst (submit_all post st (batch # new))"
      and b: "snd (submit_all post st' new) = snd (submit_all post st (batch # new))"
      using post [symmetric] by (simp_all add: inserted'_def split: prod.split)
    have "(length records - i + bs - 1) div bs = Suc ((length records - (i + bs) + bs - 1) div bs)"
      using ceil_div_step [of bs "length records - i"] False 1(2) by (simp add: diff_diff_left)
    with l have l': "length (batch # new) = (length records - i + bs - 1) div bs" by simp
    from s ne lb have s': "\<forall>b \<in> set (batch # new). b \<noteq> [] \<and> length b \<le> bs" by simp
    from step r a b have "upsert_batches post bs records i inserted st
            = (inserted + fst (submit_all post st (batch # new)),
               snd (submit_all post st (batch # new)))"
      by simp
    with c' s' l' show ?thesis by blast
  qed
qed

text \<open>
  C9. For every store, store state and record list there is a list of batches whose
  concatenation is the input, each non-empty and of at most 100 records, one per hundred
  records started, such that \<open>batch_upsert\<close> is exactly the run that posts each of these
  batches once, in order, whatever the responses are: a batch answered with another
  status than 200/201, or whose request raises, adds nothing to the count, is not
  posted again, and the batches after it are still posted.
\<close>

theorem batch_upsert_partitions:
  "\<exists>batches. concat batches = records
     \<and> (\<forall>b \<in> set batches. b \<noteq> [] \<and> length b \<le> 100)
     \<and> length batches = (length records + 99) div 100
     \<and> batch_upsert post records st
         = ((fst (submit_all post st batches), 0), snd (submit_all post st batches))"
proof (cases "records = []")
  case True
  then have "batch_upsert post records st = ((fst (submit_all post st []), 0), snd (submit_all post st []))"
    by (simp add: batch_upsert_def)
  with True show ?thesis by fastforce
next
  case False
  obtain new where r: "upsert_batches post batch_size records 0 0 st
            = (0 + fst (submit_all post st new), snd (submit_all post st new))"
      and c: "concat new = drop 0 records"
      and s: "\<forall>b \<in> set new. b \<noteq> [] \<and> length b \<le> batch_size"
      and l: "length new = (length records - 0 + batch_size - 1) div batch_size"
    using upsert_batches_submits [of batch_size post records 0 0 st]
    by (auto simp: batch_size_def)
  from r False have "batch_upsert post records st
         = ((fst (submit_all post st new), 0), snd (submit_all post st new))"
    by (simp add: batch_upsert_def split: prod.split)
  with c s l show ?thesis by (auto simp: batch_size_def)
qed

theorem batch_upsert_partitions_witness:
  "(\<exists>batches. concat batches = [0 ..< 250]
     \<and> (\<forall>b \<in> set batches. b \<noteq> [] \<and> length b \<le> 100)
     \<and> length batches = 3
     \<and> batch_upsert failing_second [0 ..< 250] 0
         = ((fst (submit_all failing_second 0 batches), 0), snd (submit_all failing_second 0 batches)))
   \<and> batch_upsert failing_second [0 ..< 250] 0 = ((150, 0), 3)"
proof -
  have "batch_upsert failing_second [0 ..< 250] 0 = ((150, 0), 3)"
    by (simp add: batch_upsert_def batch_size_def upsert_batches.simps failing_second_def
        succeeded_def)
  then show ?thesis
    using batch_upsert_partitions [of "[0 ..< 250]" failing_second 0] by simp
qed

section \<open>Deduplication: unique identifiers and the kept record\<close>

lemma map_of_group_append:
  "map_of (group_append k f G) =
     (map_of G)(k \<mapsto> (case map_of G k of None \<Rightarrow> [f] | Some grp \<Rightarrow> grp @ [f]))"
  by (induction G) (auto simp: fun_eq_iff)

lemma keys_group_append:
  "map fst (group_append k f G) = (if k \<in> fst ` set G then map fst G else map fst G @ [k])"
  by (induction G) force+

lemma members_group_append:
  "members (group_append k f G) k' = (if k' = k then members G k @ [f] else members G k')"
  by (simp add: members_def map_of_group_append split: option.split)

lemma distinct_group_append:
  "distinct (map fst G) \<Longrightarrow> distinct (map fst (group_append k f G))"
  by (simp add: keys_group_append)

lemma nonempty_group_append:
  "\<forall>(k', grp) \<in> set G. grp \<noteq> [] \<Longrightarrow> \<forall>(k', grp) \<in> set (group_append k f G). grp \<noteq> []"
  by (induction G) (auto split: if_splits)

lemma group_by_id_members:
  assumes "group_by_id fs G0 = Inr G"
  shows "members G k = members G0 k @ filter (\<lambda>f. record_key f = Inr k) fs"
  using assms
proof (induction fs arbitrary: G0)
  case Nil
  then show ?case by simp
next
  case (Cons f fs)
  from Cons.prems obtain kf where kf: "record_key f = Inr kf"
    and rest: "group_by_id fs (group_append kf f G0) = Inr G"
    by (auto split: sum.splits)
  from Cons.IH [OF rest] kf show ?case
    by (auto simp: members_group_append)
qed

lemma group_by_id_distinct:
  assumes "group_by_id fs G0 = Inr G" and "distinct (map fst G0)"
  shows "distinct (map fst G)"
  using assms
proof (induction fs arbitrary: G0)
  case Nil
  then show ?case by simp
next
  case (Cons f fs)
  from Cons.prems(1) obtain kf where "group_by_id fs (group_append kf f G0) = Inr G"
    by (auto split: sum.splits)
  then show ?case using Cons.IH distinct_group_append [OF Cons.prems(2)] by blast
qed

lemma group_by_id_nonempty:
  assumes "group_by_id fs G0 = Inr G" and "\<forall>(k, grp) \<in> set G0. grp \<noteq> []"
  shows "\<forall>(k, grp) \<in> set G. grp \<noteq> []"
  using assms
proof (induction fs arbitrary: G0)
  case Nil
  then show ?case by simp
next
  case (Cons f fs)
  from Cons.prems(1) obtain kf where "group_by_id fs (group_append kf f G0) = Inr G"
    by (auto split: sum.splits)
  then show ?case using Cons.IH nonempty_group_append [OF Cons.prems(2)] by blast
qed

lemma group_by_id_keys:
  assumes "group_by_id fs G0 = Inr G"
  shows "fst ` set G = fst ` set G0 \<union> {k. \<exists>f \<in> set fs. record_key f = Inr k}"
  using assms
proof (induction fs arbitrary: G0)
  case Nil
  then show ?case by simp
next
  case (Cons f fs)
  from Cons.prems obtain kf where kf: "record_key f = Inr kf"
    and rest: "group_by_id fs (group_append kf f G0) = Inr G"
    by (auto split: sum.splits)
  have "fst ` set (group_append kf f G0) = insert kf (fst ` set G0)"
    using keys_group_append [of kf f G0] by (metis (no_types) insert_absorb list.set_map
        set_append list.simps(15) empty_set Un_insert_right sup_bot.right_neutral)
  with Cons.IH [OF rest] kf show ?case by auto
qed

lemma group_by_id_total:
  assumes "\<forall>f \<in> set fs. \<exists>k. record_key f = Inr k"
  shows "\<exists>G. group_by_id fs G0 = Inr G"
  using assms
proof (induction fs arbitrary: G0)
  case Nil
  then show ?case by simp
next
  case (Cons f fs)
  then obtain kf where kf: "record_key f = Inr kf" by auto
  from Cons have "\<exists>G. group_by_id fs (group_append kf f G0) = Inr G" by simp
  with kf show ?case by simp
qed

lemma select_records_nonempty:
  assumes "\<forall>(k, grp) \<in> set G. grp \<noteq> []"
  shows "select_records G acc = Inr (acc @ map (\<lambda>(k, grp). best_of grp) G)"
  using assms
proof (induction G arbitrary: acc)
  case Nil
  then show ?case by simp
next
  case (Cons kg G)
  obtain k grp where kg: "kg = (k, grp)" by (cases kg)
  with Cons.prems obtain x xs where g: "grp = x # xs" by (cases grp) auto
  from Cons.prems have rest: "\<forall>(k, grp) \<in> set G. grp \<noteq> []" by simp
  show ?case
  proof (cases xs)
    case Nil
    with kg g Cons.IH [OF rest] show ?thesis by (simp add: best_of_def)
  next
    case (Cons y ys)
    with kg g Cons.IH [OF rest] show ?thesis by (simp add: best_of_def)
  qed
qed

lemma max_from_first:
  assumes "\<forall>x \<in> set before. key x < key best" and "\<forall>x \<in> set mid. key x \<le> key best"
  shows "\<exists>pre post. before @ best # mid @ xs = pre @ max_from key best xs # post
           \<and> (\<forall>x \<in> set pre. key x < key (max_from key best xs))
           \<and> (\<forall>x \<in> set post. key x \<le> key (max_from key best xs))"
  using assms
proof (induction xs arbitrary: before best mid)
  case Nil
  then show ?case by auto
next
  case (Cons x xs)
  show ?case
  proof (cases "key best < key x")
    case True
    have 1: "\<forall>y \<in> set (before @ best # mid). key y < key x"
      using Cons.prems True by fastforce
    have 2: "\<forall>y \<in> set []. key y \<le> key x" by simp
    from Cons.IH [OF 1 2] True show ?thesis by simp
  next
    case False
    have 2: "\<forall>y \<in> set (mid @ [x]). key y \<le> key best"
      using Cons.prems(2) False by auto
    from Cons.IH [OF Cons.prems(1) 2] False show ?thesis by simp
  qed
qed

lemma best_of_first:
  assumes "grp \<noteq> []"
  shows "\<exists>pre post. grp = pre @ best_of grp # post
           \<and> (\<forall>x \<in> set pre. record_quality_score x < record_quality_score (best_of grp))
           \<and> (\<forall>x \<in> set post. record_quality_score x \<le> record_quality_score (best_of grp))"
proof -
  from assms obtain x xs where g: "grp = x # xs" by (cases grp) auto
  from max_from_first [of "[]" record_quality_score x "[]" xs] g show ?thesis
    by (simp add: best_of_def)
qed

lemma remove_duplicates_groups:
  assumes "remove_duplicates fragrances = Inr out"
  shows "\<exists>G. out = map (\<lambda>(k, grp). best_of grp) G \<and> distinct (map fst G)
           \<and> (\<forall>(k, grp) \<in> set G. grp \<noteq> []
                 \<and> grp = filter (\<lambda>f. record_key f = Inr k) fragrances)
           \<and> fst ` set G = {k. \<exists>f \<in> set fragrances. record_key f = Inr k}"
proof -
  from assms obtain G where G: "group_by_id fragrances [] = Inr G"
    and sel: "select_records G [] = Inr out"
    by (auto simp: remove_duplicates_def split: sum.splits)
  have d: "distinct (map fst G)" using group_by_id_distinct [OF G] by simp
  have ne: "\<forall>(k, grp) \<in> set G. grp \<noteq> []" using group_by_id_nonempty [OF G] by simp
  have m: "grp = filter (\<lambda>f. record_key f = Inr k) fragrances" if "(k, grp) \<in> set G" for k grp
  proof -
    from that d have "map_of G k = Some grp" by simp
    then have "members G k = grp" by (simp add: members_def)
    with group_by_id_members [OF G, of k] show ?thesis by (simp add: members_def)
  qed
  have k: "fst ` set G = {k. \<exists>f \<in> set fragrances. record_key f = Inr k}"
    using group_by_id_keys [OF G] by simp
  from sel select_records_nonempty [OF ne, of "[]"]
  have "out = map (\<lambda>(k, grp). best_of grp) G" by simp
  with d ne m k show ?thesis by blast
qed

lemma best_of_member: "grp \<noteq> [] \<Longrightarrow> best_of grp \<in> set grp"
  using best_of_first [of grp] by (metis in_set_conv_decomp)

lemma distinct_map_comp: "distinct (map (h \<circ> g) xs) \<Longrightarrow> distinct (map g xs)"
  by (induction xs) auto

lemma record_key_comp: "record_key = (\<lambda>v. case v of None \<Rightarrow> Inl KeyError | Some v \<Rightarrow> hash_key v) \<circ> (\<lambda>f. f ''id'')"
  by (simp add: fun_eq_iff record_key_def)

text \<open>
  C2. For every input sequence whose records all have a hashable \<open>id\<close>,
  \<open>remove_duplicates\<close> returns, and in its output no two records have the same \<open>id\<close>
  (as dictionary keys, hence also as values); every \<open>id\<close> of the input is kept, and
  every output record is one of the input records.
\<close>

theorem remove_duplicates_unique_ids:
  assumes "\<forall>f \<in> set fragrances. \<exists>k. record_key f = Inr k"
  shows "\<exists>out. remove_duplicates fragrances = Inr out
           \<and> distinct (map record_key out)
           \<and> distinct (map (\<lambda>f. f ''id'') out)
           \<and> record_key ` set out = record_key ` set fragrances
           \<and> set out \<subseteq> set fragrances"
proof -
  from group_by_id_total [OF assms, of "[]"] obtain G0
    where G0: "group_by_id fragrances [] = Inr G0" by blast
  have "\<forall>(k, grp) \<in> set G0. grp \<noteq> []" using group_by_id_nonempty [OF G0] by simp
  from select_records_nonempty [OF this, of "[]"] G0
  obtain out where out: "remove_duplicates fragrances = Inr out"
    by (simp add: remove_duplicates_def)
  from remove_duplicates_groups [OF out] obtain G
    where o: "out = map (\<lambda>(k, grp). best_of grp) G" and d: "distinct (map fst G)"
      and g: "\<forall>(k, grp) \<in> set G. grp \<noteq> []
                 \<and> grp = filter (\<lambda>f. record_key f = Inr k) fragrances"
      and ks: "fst ` set G = {k. \<exists>f \<in> set fragrances. record_key f = Inr k}"
    by blast
  have b: "best_of grp \<in> set fragrances \<and> record_key (best_of grp) = Inr k"
    if "(k, grp) \<in> set G" for k grp
  proof -
    from that g have ne: "grp \<noteq> []"
      and f: "grp = filter (\<lambda>f. record_key f = Inr k) fragrances" by auto
    from best_of_member [OF ne] have "best_of grp \<in> set (filter (\<lambda>f. record_key f = Inr k) fragrances)"
      using f by simp
    then show ?thesis by simp
  qed
  have m: "map record_key out = map (\<lambda>kg. Inr (fst kg)) G"
    unfolding o using b by (auto simp: case_prod_beta)
  have "distinct (map (\<lambda>kg. (Inr (fst kg) :: py_error + pykey)) G)"
    using d by (simp add: distinct_map inj_on_def)
  with m have 1: "distinct (map record_key out)" by simp
  have "distinct (map ((\<lambda>v. case v of None \<Rightarrow> Inl KeyError | Some v \<Rightarrow> hash_key v)
                        \<circ> (\<lambda>f. f ''id'')) out)"
    using 1 record_key_comp by simp
  then have 2: "distinct (map (\<lambda>f. f ''id'') out)" by (rule distinct_map_comp)
  have "record_key ` set out = Inr ` fst ` set G"
    using m by (metis image_image list.set_map)
  also have "\<dots> = record_key ` set fragrances"
  proof
    show "Inr ` fst ` set G \<subseteq> record_key ` set fragrances"
      unfolding ks by (auto simp: image_iff) metis
    show "record_key ` set fragrances \<subseteq> Inr ` fst ` set G"
    proof
      fix x assume "x \<in> record_key ` set fragrances"
      then obtain f where f: "f \<in> set fragrances" "x = record_key f" by blast
      with assms obtain k where "record_key f = Inr k" by blast
      with f show "x \<in> Inr ` fst ` set G" unfolding ks by blast
    qed
  qed
  finally have 3: "record_key ` set out = record_key ` set fragrances" .
  have 4: "set out \<subseteq> set fragrances" unfolding o using b by auto
  from out 1 2 3 4 show ?thesis by blast
qed

theorem remove_duplicates_unique_ids_witness:
  "remove_duplicates [rec_b, rec_c, rec_a] = Inr [rec_a, rec_c]
   \<and> distinct (map record_key [rec_a, rec_c])"
proof -
  have h: "\<forall>f \<in> set [rec_b, rec_c, rec_a]. \<exists>k. record_key f = Inr k"
    by (simp add: record_key_def rec_a_def rec_b_def rec_c_def)
  have e: "remove_duplicates [rec_b, rec_c, rec_a] = Inr [rec_a, rec_c]"
    by (simp add: remove_duplicates_def record_key_def record_quality_score_def get_truthy_def
        rec_a_def rec_b_def rec_c_def)
  from remove_duplicates_unique_ids [OF h] e
  have "distinct (map record_key [rec_a, rec_c])" by auto
  with e show ?thesis by blast
qed

text \<open>
  C3 (counterexample). Two records that differ only in \<open>rating_count\<close>, absent in the
  first and present with the value 0 in the second: the heuristic as the claim words it
  prefers the second, the code scores both 0 and keeps the first.
\<close>

theorem quality_present_counterexample:
  "rec_zero = rec_none(''rating_count'' \<mapsto> VNum 0) \<and> rec_none ''rating_count'' = None
   \<and> remove_duplicates [rec_none, rec_zero] = Inr [rec_none]
   \<and> claimed_quality_score rec_none < claimed_quality_score rec_zero"
  by (simp add: remove_duplicates_def record_key_def record_quality_score_def get_truthy_def
      claimed_quality_score_def present_def rec_none_def rec_zero_def)

lemma score_without_rating_count:
  assumes "get_truthy a ''rating_count''" and "\<not> get_truthy (a(''rating_count'' := w)) ''rating_count''"
  shows "record_quality_score (a(''rating_count'' := w)) < record_quality_score a"
  using assms by (simp add: record_quality_score_def get_truthy_def)

text \<open>
  C3 (amended). Every record of the output is, within the input records of its \<open>id\<close>
  taken in input order, the first one of maximal \<open>record_quality_score\<close>, where the
  score adds 10 for a truthy (present, non-zero) \<open>rating_value\<close>, 10 for a truthy
  \<open>rating_count\<close>, 5 for each non-empty notes field, 3 for non-empty perfumers and 1 for
  a non-empty URL; of two records that differ only in \<open>rating_count\<close>, truthy in one and
  absent, \<open>null\<close> or zero in the other, the one with the truthy \<open>rating_count\<close> is kept,
  in either input order.
\<close>

theorem remove_duplicates_keeps_first_best:
  "(remove_duplicates fragrances = Inr out \<longrightarrow>
      (\<forall>r \<in> set out. \<exists>k pre post. record_key r = Inr k
          \<and> filter (\<lambda>f. record_key f = Inr k) fragrances = pre @ r # post
          \<and> (\<forall>x \<in> set pre. record_quality_score x < record_quality_score r)
          \<and> (\<forall>x \<in> set post. record_quality_score x \<le> record_quality_score r)))
   \<and> (record_key a = Inr k' \<and> get_truthy a ''rating_count''
        \<and> \<not> get_truthy (a(''rating_count'' := w)) ''rating_count'' \<longrightarrow>
          remove_duplicates [a, a(''rating_count'' := w)] = Inr [a]
          \<and> remove_duplicates [a(''rating_count'' := w), a] = Inr [a])"
proof (intro conjI impI)
  assume out: "remove_duplicates fragrances = Inr out"
  from remove_duplicates_groups [OF out] obtain G
    where o: "out = map (\<lambda>(k, grp). best_of grp) G"
      and g: "\<forall>(k, grp) \<in> set G. grp \<noteq> []
                 \<and> grp = filter (\<lambda>f. record_key f = Inr k) fragrances"
    by blast
  show "\<forall>r \<in> set out. \<exists>k pre post. record_key r = Inr k
          \<and> filter (\<lambda>f. record_key f = Inr k) fragrances = pre @ r # post
          \<and> (\<forall>x \<in> set pre. record_quality_score x < record_quality_score r)
          \<and> (\<forall>x \<in> set post. record_quality_score x \<le> record_quality_score r)"
  proof
    fix r assume "r \<in> set out"
    with o obtain k grp where kg: "(k, grp) \<in> set G" and r: "r = best_of grp" by auto
    from kg g have ne: "grp \<noteq> []"
      and f: "grp = filter (\<lambda>f. record_key f = Inr k) fragrances" by auto
    from best_of_member [OF ne] f have "r \<in> set (filter (\<lambda>f. record_key f = Inr k) fragrances)"
      using r by simp
    then have rk: "record_key r = Inr k" by simp
    from best_of_first [OF ne] obtain pre post where "grp = pre @ r # post"
      "\<forall>x \<in> set pre. record_quality_score x < record_quality_score r"
      "\<forall>x \<in> set post. record_quality_score x \<le> record_quality_score r"
      unfolding r by blast
    with rk f show "\<exists>k pre post. record_key r = Inr k
          \<and> filter (\<lambda>f. record_key f = Inr k) fragrances = pre @ r # post
          \<and> (\<forall>x \<in> set pre. record_quality_score x < record_quality_score r)
          \<and> (\<forall>x \<in> set post. record_quality_score x \<le> record_quality_score r)"
      by metis
  qed
next
  assume h: "record_key a = Inr k' \<and> get_truthy a ''rating_count''
        \<and> \<not> get_truthy (a(''rating_count'' := w)) ''rating_count''"
  let ?b = "a(''rating_count'' := w)"
  from h have kb: "record_key ?b = Inr k'" by (simp add: record_key_def)
  from h have lt: "record_quality_score ?b < record_quality_score a"
    using score_without_rating_count by blast
  from h kb lt show "remove_duplicates [a, ?b] = Inr [a]"
    by (simp add: remove_duplicates_def)
  from h kb lt show "remove_duplicates [?b, a] = Inr [a]"
    by (simp add: remove_duplicates_def)
qed

theorem remove_duplicates_keeps_first_best_witness:
  "remove_duplicates [rec_b, rec_a] = Inr [rec_a]
   \<and> rec_b = rec_a(''rating_count'' := Some VNone)
   \<and> (\<exists>k pre post. record_key rec_a = Inr k
          \<and> filter (\<lambda>f. record_key f = Inr k) [rec_b, rec_a] = pre @ rec_a # post
          \<and> (\<forall>x \<in> set pre. record_quality_score x < record_quality_score rec_a)
          \<and> (\<forall>x \<in> set post. record_quality_score x \<le> record_quality_score rec_a))"
proof -
  have b: "rec_b = rec_a(''rating_count'' := Some VNone)"
    by (simp add: rec_a_def rec_b_def)
  have k: "record_key rec_a = Inr (KStr ''dior__sauvage'')"
    by (simp add: record_key_def rec_a_def)
  have t: "get_truthy rec_a ''rating_count''" by (simp add: get_truthy_def rec_a_def)
  have n: "\<not> get_truthy (rec_a(''rating_count'' := Some VNone)) ''rating_count''"
    by (simp add: get_truthy_def)
  note inst = remove_duplicates_keeps_first_best
    [of "[rec_b, rec_a]" "[rec_a]" rec_a "KStr ''dior__sauvage''" "Some VNone"]
  from inst k t n have e: "remove_duplicates [rec_b, rec_a] = Inr [rec_a]"
    unfolding b by blast
  with inst have "\<exists>k pre post. record_key rec_a = Inr k
          \<and> filter (\<lambda>f. record_key f = Inr k) [rec_b, rec_a] = pre @ rec_a # post
          \<and> (\<forall>x \<in> set pre. record_quality_score x < record_quality_score rec_a)
          \<and> (\<forall>x \<in> set post. record_quality_score x \<le> record_quality_score rec_a)"
    by simp
  with e b show ?thesis by blast
qed

section \<open>Name-collision disambiguation\<close>

lemma fix_member_expected:
  assumes "fix_member i fragrance = Inr fixed"
  shows "fixed = fragrance\<lparr>e_name := expected_name i fragrance\<rparr>"
  using assms
  by (auto simp: fix_member_def expected_name_def Let_def
      split: list.splits option.splits if_splits)

lemma fix_group_expected:
  assumes "fix_group i grp acc = Inr result"
  shows "result = acc @ map (\<lambda>(i, fragrance). fragrance\<lparr>e_name := expected_name i fragrance\<rparr>)
                          (enumerate i grp)"
  using assms
proof (induction grp arbitrary: i acc)
  case Nil
  then show ?case by simp
next
  case (Cons f grp)
  from Cons.prems obtain fixed where m: "fix_member i f = Inr fixed"
    and rest: "fix_group (Suc i) grp (acc @ [fixed]) = Inr result"
    by (auto split: sum.splits)
  from Cons.IH [OF rest] fix_member_expected [OF m] show ?case by simp
qed

lemma fix_groups_expected:
  assumes "fix_groups G acc = Inr result"
  shows "result = acc @ concat (map (\<lambda>(k, grp). expected_group grp) G)"
  using assms
proof (induction G arbitrary: acc)
  case Nil
  then show ?case by simp
next
  case (Cons kg G)
  obtain k grp where kg: "kg = (k, grp)" by (cases kg)
  show ?case
  proof (cases "length grp = 1")
    case True
    with Cons.prems kg have "fix_groups G (acc @ grp) = Inr result" by simp
    from Cons.IH [OF this] True kg show ?thesis by (simp add: expected_group_def)
  next
    case False
    with Cons.prems kg obtain mid where g: "fix_group 0 grp acc = Inr mid"
      and rest: "fix_groups G mid = Inr result"
      by (auto split: sum.splits)
    from Cons.IH [OF rest] fix_group_expected [OF g] False kg show ?thesis
      by (simp add: expected_group_def)
  qed
qed

lemma group_all_members:
  "members (group_all key fs G0) k = members G0 k @ filter (\<lambda>f. key f = k) fs"
proof (induction fs arbitrary: G0)
  case Nil
  then show ?case by simp
next
  case (Cons f fs)
  show ?case by (simp add: Cons.IH members_group_append)
qed

lemma group_all_distinct:
  "distinct (map fst G0) \<Longrightarrow> distinct (map fst (group_all key fs G0))"
proof (induction fs arbitrary: G0)
  case Nil
  then show ?case by simp
next
  case (Cons f fs)
  from Cons.IH [OF distinct_group_append [OF Cons.prems]] show ?case by simp
qed

lemma group_all_nonempty:
  "\<forall>(k, grp) \<in> set G0. grp \<noteq> [] \<Longrightarrow> \<forall>(k, grp) \<in> set (group_all key fs G0). grp \<noteq> []"
proof (induction fs arbitrary: G0)
  case Nil
  then show ?case by simp
next
  case (Cons f fs)
  from Cons.IH [OF nonempty_group_append [OF Cons.prems]] show ?case by simp
qed

lemma group_all_has_group:
  assumes "filter (\<lambda>f. key f = k) fs \<noteq> []"
  shows "(k, filter (\<lambda>f. key f = k) fs) \<in> set (group_all key fs [])"
proof -
  let ?G = "group_all key fs []"
  have m: "members ?G k = filter (\<lambda>f. key f = k) fs"
    using group_all_members [of key fs "[]" k] by (simp add: members_def)
  with assms obtain grp where "map_of ?G k = Some grp" and "grp = filter (\<lambda>f. key f = k) fs"
    by (auto simp: members_def split: option.splits)
  then show ?thesis using map_of_SomeD by fastforce
qed

lemma group_all_groups:
  assumes "(k, grp) \<in> set (group_all key fs [])"
  shows "grp = filter (\<lambda>f. key f = k) fs" and "grp \<noteq> []"
proof -
  let ?G = "group_all key fs []"
  have d: "distinct (map fst ?G)" using group_all_distinct [of "[]" key fs] by simp
  with assms have "map_of ?G k = Some grp" by simp
  then have "members ?G k = grp" by (simp add: members_def)
  with group_all_members [of key fs "[]" k] show "grp = filter (\<lambda>f. key f = k) fs"
    by (simp add: members_def)
  from group_all_nonempty [of "[]" key fs] assms show "grp \<noteq> []" by auto
qed

lemma count_remaining_card:
  "count_remaining xs S n + card (name_key ` set xs - S) = n + length xs"
proof (induction xs arbitrary: S n)
  case Nil
  then show ?case by simp
next
  case (Cons x xs)
  show ?case
  proof (cases "name_key x \<in> S")
    case True
    then have "name_key ` set (x # xs) - S = name_key ` set xs - S" by auto
    with True Cons.IH [of S "n + 1"] show ?thesis by simp
  next
    case False
    let ?A = "name_key ` set xs - insert (name_key x) S"
    have e: "name_key ` set (x # xs) - S = insert (name_key x) ?A"
      using False by auto
    have "finite ?A" by simp
    moreover have "name_key x \<notin> ?A" by simp
    ultimately have "card (insert (name_key x) ?A) = Suc (card ?A)"
      by (rule card_insert_disjoint)
    then have "card (name_key ` set (x # xs) - S) = Suc (card ?A)"
      by (simp only: e)
    with False Cons.IH [of "insert (name_key x) S" n] show ?thesis by simp
  qed
qed

lemma length_group_append:
  "length (concat (map snd (group_append k f G))) = Suc (length (concat (map snd G)))"
  by (induction G) auto

lemma length_group_all:
  "length (concat (map snd (group_all key fs G0))) = length (concat (map snd G0)) + length fs"
proof (induction fs arbitrary: G0)
  case Nil
  then show ?case by simp
next
  case (Cons f fs)
  show ?case by (simp add: Cons.IH length_group_append)
qed

lemma length_expected_group: "length (expected_group grp) = length grp"
  by (simp add: expected_group_def)

lemma length_concat_expected:
  "length (concat (map (\<lambda>(k, grp). expected_group grp) G)) = length (concat (map snd G))"
  by (induction G) (auto simp: length_expected_group)

lemma expected_group_member:
  assumes "fixed \<in> set (expected_group grp)"
  shows "\<exists>f \<in> set grp. e_id fixed = e_id f \<and> e_brand_id fixed = e_brand_id f
           \<and> entry.more fixed = entry.more f"
proof (cases "length grp = 1")
  case True
  with assms show ?thesis by (auto simp: expected_group_def)
next
  case False
  with assms obtain i f where "(i, f) \<in> set (enumerate 0 grp)"
    and o: "fixed = f\<lparr>e_name := expected_name i f\<rparr>"
    by (auto simp: expected_group_def)
  then have "f \<in> set grp" by (auto simp: in_set_enumerate_eq)
  with o show ?thesis by auto
qed

lemma fix_member_total:
  assumes "e_name fragrance \<noteq> None"
  shows "\<exists>fixed. fix_member i fragrance = Inr fixed"
  using assms
  by (auto simp: fix_member_def Let_def split: list.splits option.splits)

lemma fix_group_total:
  assumes "\<forall>f \<in> set grp. e_name f \<noteq> None"
  shows "\<exists>result. fix_group i grp acc = Inr result"
  using assms
proof (induction grp arbitrary: i acc)
  case Nil
  then show ?case by simp
next
  case (Cons f grp)
  then obtain fixed where "fix_member i f = Inr fixed" using fix_member_total [of f i] by auto
  moreover from Cons have "\<exists>result. fix_group (Suc i) grp (acc @ [fixed]) = Inr result" by simp
  ultimately show ?case by simp
qed

lemma fix_groups_total:
  assumes "\<forall>(k, grp) \<in> set G. \<forall>f \<in> set grp. e_name f \<noteq> None"
  shows "\<exists>result. fix_groups G acc = Inr result"
  using assms
proof (induction G arbitrary: acc)
  case Nil
  then show ?case by simp
next
  case (Cons kg G)
  obtain k grp where kg: "kg = (k, grp)" by (cases kg)
  from Cons.prems kg have g: "\<forall>f \<in> set grp. e_name f \<noteq> None"
    and rest: "\<forall>(k, grp) \<in> set G. \<forall>f \<in> set grp. e_name f \<noteq> None" by auto
  show ?case
  proof (cases "length grp = 1")
    case True
    with kg Cons.IH [OF rest] show ?thesis by simp
  next
    case False
    from fix_group_total [OF g] obtain mid where "fix_group 0 grp acc = Inr mid" by blast
    with False kg Cons.IH [OF rest, of mid] show ?thesis by simp
  qed
qed

lemma fix_duplicate_names_total:
  assumes "\<forall>f \<in> set fragrances. e_name f \<noteq> None"
  shows "\<exists>fixed_fragrances remaining_duplicates.
           fix_duplicate_names fragrances = Inr (fixed_fragrances, remaining_duplicates)"
proof -
  let ?G = "group_all name_key fragrances []"
  have m: "e_name f \<noteq> None" if "(k, grp) \<in> set ?G" "f \<in> set grp" for k grp f
  proof -
    from group_all_groups(1) [OF that(1)] that(2) have "f \<in> set fragrances" by auto
    with assms show ?thesis by blast
  qed
  have "\<forall>(k, grp) \<in> set ?G. \<forall>f \<in> set grp. e_name f \<noteq> None"
    using m by blast
  from fix_groups_total [OF this, of "[]"] obtain result where "fix_groups ?G [] = Inr result"
    by blast
  then show ?thesis by (simp add: fix_duplicate_names_def)
qed

text \<open>
  C4 (counterexample). Two records with the same \<open>brand_id\<close> and \<open>name\<close> whose ids both
  contain \<open>eau-de-parfum\<close>: both names get the token \<open>EDP\<close>, the ids stay as they were,
  the two output records share the key \<open>(dior, Sauvage EDP)\<close> and the function reports
  one remaining duplicate.
\<close>

theorem fix_duplicate_names_counterexample:
  "fix_duplicate_names [edp_one, edp_two]
     = Inr ([edp_one\<lparr>e_name := Some ''Sauvage EDP''\<rparr>,
             edp_two\<lparr>e_name := Some ''Sauvage EDP''\<rparr>], 1)
   \<and> e_id (edp_one\<lparr>e_name := Some ''Sauvage EDP''\<rparr>) = Some ''dior__sauvage-eau-de-parfum''
   \<and> e_id (edp_two\<lparr>e_name := Some ''Sauvage EDP''\<rparr>) = Some ''dior__sauvage-eau-de-parfum-2018''
   \<and> name_key (edp_one\<lparr>e_name := Some ''Sauvage EDP''\<rparr>) = (''dior'', ''Sauvage EDP'')
   \<and> name_key (edp_two\<lparr>e_name := Some ''Sauvage EDP''\<rparr>) = (''dior'', ''Sauvage EDP'')"
  by (simp add: fix_duplicate_names_def name_key_def get_or_empty_def fix_member_def py_split_def
      find_distinguisher_def concentrations_def edp_one_def edp_two_def)

lemma fix_duplicate_names_result:
  assumes "fix_duplicate_names fragrances = Inr (fixed_fragrances, remaining_duplicates)"
  shows "length fixed_fragrances = length fragrances
       \<and> (\<forall>k. filter (\<lambda>f. name_key f = k) fragrances \<noteq> [] \<longrightarrow>
             (\<exists>before after. fixed_fragrances
                = before @ expected_group (filter (\<lambda>f. name_key f = k) fragrances) @ after))
       \<and> (\<forall>fixed \<in> set fixed_fragrances. \<exists>f \<in> set fragrances.
             e_id fixed = e_id f \<and> e_brand_id fixed = e_brand_id f
             \<and> entry.more fixed = entry.more f)
       \<and> remaining_duplicates + card (name_key ` set fixed_fragrances) = length fixed_fragrances
       \<and> (remaining_duplicates = 0 \<longleftrightarrow> distinct (map name_key fixed_fragrances))"
proof -
  let ?G = "group_all name_key fragrances []"
  let ?F = "\<lambda>(k, grp). expected_group grp"
  from assms have fg: "fix_groups ?G [] = Inr fixed_fragrances"
    and rem: "remaining_duplicates = count_remaining fixed_fragrances {} 0"
    by (auto simp: fix_duplicate_names_def Let_def split: sum.splits)
  from fix_groups_expected [OF fg] have out: "fixed_fragrances = concat (map ?F ?G)" by simp
  have 1: "length fixed_fragrances = length fragrances"
    unfolding out using length_concat_expected [of ?G] length_group_all [of name_key fragrances "[]"]
    by simp
  have 2: "\<exists>before after. fixed_fragrances
                = before @ expected_group (filter (\<lambda>f. name_key f = k) fragrances) @ after"
    if "filter (\<lambda>f. name_key f = k) fragrances \<noteq> []" for k
  proof -
    let ?g = "filter (\<lambda>f. name_key f = k) fragrances"
    from group_all_has_group [OF that] have "(k, ?g) \<in> set ?G" .
    then obtain G1 G2 where "?G = G1 @ (k, ?g) # G2" by (auto simp: in_set_conv_decomp)
    then have "concat (map ?F ?G) = concat (map ?F G1) @ expected_group ?g @ concat (map ?F G2)"
      by simp
    then show ?thesis unfolding out by blast
  qed
  have 3: "\<exists>f \<in> set fragrances. e_id fixed = e_id f \<and> e_brand_id fixed = e_brand_id f
             \<and> entry.more fixed = entry.more f"
    if "fixed \<in> set fixed_fragrances" for fixed
  proof -
    from that obtain k grp where kg: "(k, grp) \<in> set ?G" and m: "fixed \<in> set (expected_group grp)"
      unfolding out by auto
    from group_all_groups(1) [OF kg] have "set grp \<subseteq> set fragrances" by auto
    with expected_group_member [OF m] show ?thesis by blast
  qed
  have 4: "remaining_duplicates + card (name_key ` set fixed_fragrances) = length fixed_fragrances"
    using count_remaining_card [of fixed_fragrances "{}" 0] rem by simp
  have "card (name_key ` set fixed_fragrances) = length fixed_fragrances
          \<longleftrightarrow> distinct (map name_key fixed_fragrances)"
    using card_distinct [of "map name_key fixed_fragrances"]
      distinct_card [of "map name_key fixed_fragrances"] by auto
  with 4 have 5: "remaining_duplicates = 0 \<longleftrightarrow> distinct (map name_key fixed_fragrances)"
    by auto
  from 1 2 3 4 5 show ?thesis by blast
qed

text \<open>
  C4 (amended). \<open>fix_duplicate_names\<close> returns when every record has a name. Whenever it
  returns, the output has as many records as the input; for every \<open>(brand_id, name)\<close>
  key the records of that key appear as one block, a single record unchanged and the
  members of a larger group with the name \<open>expected_name\<close> gives them (token appended
  when one is found in the \<open>id\<close> and the name lacks it, positional suffix \<open>(2)\<close>, \<open>(3)\<close>,
  ... for the later members when none is found); only names change, never \<open>id\<close> or
  \<open>brand_id\<close>; and the second result counts the records whose key repeats an earlier
  one, so the output keys are pairwise distinct exactly when that count is 0.
\<close>

theorem fix_duplicate_names_amends:
  "((\<forall>f \<in> set fragrances. e_name f \<noteq> None) \<longrightarrow>
      (\<exists>fixed_fragrances remaining_duplicates.
         fix_duplicate_names fragrances = Inr (fixed_fragrances, remaining_duplicates)))
   \<and> (fix_duplicate_names fragrances = Inr (fixed_fragrances, remaining_duplicates) \<longrightarrow>
       length fixed_fragrances = length fragrances
       \<and> (\<forall>k. filter (\<lambda>f. name_key f = k) fragrances \<noteq> [] \<longrightarrow>
             (\<exists>before after. fixed_fragrances
                = before @ expected_group (filter (\<lambda>f. name_key f = k) fragrances) @ after))
       \<and> (\<forall>fixed \<in> set fixed_fragrances. \<exists>f \<in> set fragrances.
             e_id fixed = e_id f \<and> e_brand_id fixed = e_brand_id f
             \<and> entry.more fixed = entry.more f)
       \<and> remaining_duplicates + card (name_key ` set fixed_fragrances) = length fixed_fragrances
       \<and> (remaining_duplicates = 0 \<longleftrightarrow> distinct (map name_key fixed_fragrances)))"
proof (rule conjI)
  show "(\<forall>f \<in> set fragrances. e_name f \<noteq> None) \<longrightarrow>
      (\<exists>fixed_fragrances remaining_duplicates.
         fix_duplicate_names fragrances = Inr (fixed_fragrances, remaining_duplicates))"
    using fix_duplicate_names_total [of fragrances] by (rule impI)
next
  show "fix_duplicate_names fragrances = Inr (fixed_fragrances, remaining_duplicates) \<longrightarrow>
       length fixed_fragrances = length fragrances
       \<and> (\<forall>k. filter (\<lambda>f. name_key f = k) fragrances \<noteq> [] \<longrightarrow>
             (\<exists>before after. fixed_fragrances
                = before @ expected_group (filter (\<lambda>f. name_key f = k) fragrances) @ after))
       \<and> (\<forall>fixed \<in> set fixed_fragrances. \<exists>f \<in> set fragrances.
             e_id fixed = e_id f \<and> e_brand_id fixed = e_brand_id f
             \<and> entry.more fixed = entry.more f)
       \<and> remaining_duplicates + card (name_key ` set fixed_fragrances) = length fixed_fragrances
       \<and> (remaining_duplicates = 0 \<longleftrightarrow> distinct (map name_key fixed_fragrances))"
    using fix_duplicate_names_result [of fragrances fixed_fragrances remaining_duplicates]
    by (rule impI)
qed

theorem fix_duplicate_names_amends_witness:
  "fix_duplicate_names [plain_one, edp_one, plain_two]
     = Inr ([plain_one, edp_one\<lparr>e_name := Some ''Sauvage EDP''\<rparr>,
             plain_two\<lparr>e_name := Some ''Sauvage (3)''\<rparr>], 0)
   \<and> distinct (map name_key [plain_one, edp_one\<lparr>e_name := Some ''Sauvage EDP''\<rparr>,
             plain_two\<lparr>e_name := Some ''Sauvage (3)''\<rparr>])"
proof -
  have h: "fix_duplicate_names [plain_one, edp_one, plain_two]
     = Inr ([plain_one, edp_one\<lparr>e_name := Some ''Sauvage EDP''\<rparr>,
             plain_two\<lparr>e_name := Some ''Sauvage (3)''\<rparr>], 0)"
    by (simp add: fix_duplicate_names_def name_key_def get_or_empty_def fix_member_def py_split_def
      find_distinguisher_def concentrations_def version_words_def is_digit_def py_str_nat.simps
      edp_one_def plain_one_def plain_two_def)
  from fix_duplicate_names_amends
         [of "[plain_one, edp_one, plain_two]"
             "[plain_one, edp_one\<lparr>e_name := Some ''Sauvage EDP''\<rparr>,
               plain_two\<lparr>e_name := Some ''Sauvage (3)''\<rparr>]" 0] h
  have "distinct (map name_key [plain_one, edp_one\<lparr>e_name := Some ''Sauvage EDP''\<rparr>,
             plain_two\<lparr>e_name := Some ''Sauvage (3)''\<rparr>])"
    by blast
  with h show ?thesis by blast
qed

end
